theory Spec2Isabelle
  imports Main "HOL-Library.Monad_Syntax" "HOL-Library.Char_ord" "HOL-Library.List_Lexorder"
begin

section \<open>Data model of \<^verbatim>\<open>pdf_extractor.py\<close>\<close>

text \<open>
  The script reads PDF reports through \<^verbatim>\<open>pymupdf\<close> and writes rows through
  \<^verbatim>\<open>sqlite3\<close>. Both libraries are outside the repository: a document is modelled by
  what the library hands to the script (pages, page text, detected tables), and every
  library call that can fail on a document is a value that is either a result or a
  raised exception: opening the file, loading the next page in a \<^verbatim>\<open>for\<close> loop,
  \<^verbatim>\<open>get_text()\<close>, \<^verbatim>\<open>find_tables()\<close> and \<^verbatim>\<open>extract()\<close>.

  Page text is a \<^typ>\<open>string\<close>: one \<^typ>\<open>char\<close> per code point, which covers the code
  points below 256. In that range the class \<^verbatim>\<open>\d\<close> of Python's \<^verbatim>\<open>re\<close> is exactly the
  ten ASCII digits, and \<^verbatim>\<open>[A-Z]\<close>, \<^verbatim>\<open>[a-z]\<close> are the ASCII letters everywhere.
\<close>

datatype exn = Sqlite3_Error | Index_Error | Type_Error | Pdf_Error

text \<open>\<^verbatim>\<open>except Exception\<close> catches every member of \<^typ>\<open>exn\<close>; \<^verbatim>\<open>except sqlite3.Error\<close>
  catches \<^const>\<open>Sqlite3_Error\<close> alone.\<close>

fun is_Exception :: "exn \<Rightarrow> bool" where
  "is_Exception e = True"

fun is_sqlite3_Error :: "exn \<Rightarrow> bool" where
  "is_sqlite3_Error Sqlite3_Error = True"
| "is_sqlite3_Error e = False"

text \<open>A cell of \<^verbatim>\<open>table.extract()\<close> is a string or \<^verbatim>\<open>None\<close>.\<close>

type_synonym cell = "string option"
type_synonym row = "cell list"

text \<open>A detected table is the outcome of its \<^verbatim>\<open>extract()\<close> call; a page is the outcome
  of \<^verbatim>\<open>get_text()\<close> and of \<^verbatim>\<open>find_tables()\<close> (whose \<^verbatim>\<open>.tables\<close> is the list).\<close>

type_synonym table = "exn + row list"

record page =
  get_text :: "exn + string"
  find_tables :: "exn + table list"

text \<open>
  A document is what iterating over it yields: each step of \<^verbatim>\<open>for page in document\<close>
  either loads the next page or raises, and a step that raises ends the iteration, so
  that the elements behind a failed load are never reached.
\<close>

type_synonym document = "(exn + page) list"

record metadata =
  firstname :: string
  surname :: string
  year :: int
  semester :: int
  report :: int

text \<open>The dictionary \<^verbatim>\<open>{**extracted_metadata, "all_rows": extracted_tabledata}\<close>.\<close>

record extracted_data = metadata +
  all_rows :: "row list"

datatype log_record =
    Iterate_files_error exn
  | Extract_metadata_error exn
  | Extract_tabledata_error exn
  | Write_sql_row_error exn
  | Write_sql_config_error exn
  | Setup_sql_error exn

section \<open>The two regular expressions\<close>

definition upper_AZ :: "char \<Rightarrow> bool" where
  "upper_AZ c \<longleftrightarrow> c \<in> set ''ABCDEFGHIJKLMNOPQRSTUVWXYZ''"

definition lower_az :: "char \<Rightarrow> bool" where
  "lower_az c \<longleftrightarrow> c \<in> set ''abcdefghijklmnopqrstuvwxyz''"

definition digit :: "char \<Rightarrow> bool" where
  "digit c \<longleftrightarrow> c \<in> set ''0123456789''"

text \<open>The value of a decimal digit is its place among the ten digits.\<close>

definition digit_value :: "char \<Rightarrow> int" where
  "digit_value c = int (length (takeWhile (\<lambda>d. d \<noteq> c) ''0123456789''))"

text \<open>\<^verbatim>\<open>int(s)\<close> on a string of decimal digits.\<close>

definition py_int :: "string \<Rightarrow> int" where
  "py_int s = foldl (\<lambda>a c. 10 * a + digit_value c) 0 s"

text \<open>A literal of a pattern, and \<^verbatim>\<open>\d{n}\<close>: both consume a prefix or fail.\<close>

definition literal :: "string \<Rightarrow> string \<Rightarrow> string option" where
  "literal lit s = (if take (length lit) s = lit then Some (drop (length lit) s) else None)"

definition digits :: "nat \<Rightarrow> string \<Rightarrow> (string \<times> string) option" where
  "digits n s =
     (if n \<le> length s \<and> list_all digit (take n s) then Some (take n s, drop n s) else None)"

text \<open>
  \<^verbatim>\<open>([A-Z][a-z]+) ([A-Z]+)\<close> tried at the head of \<open>s\<close>. The greedy \<^verbatim>\<open>[a-z]+\<close> takes the
  whole run of lower-case letters; giving one back leaves a lower-case letter where the
  space must be, so backtracking never helps. \<^verbatim>\<open>[A-Z]+\<close> ends the pattern and keeps its
  whole run. The result is (group 1, group 2).
\<close>

definition nm_match :: "string \<Rightarrow> (string \<times> string) option" where
  "nm_match s =
     (case s of
        [] \<Rightarrow> None
      | c # cs \<Rightarrow>
          if \<not> upper_AZ c then None
          else let lo = takeWhile lower_az cs; s1 = dropWhile lower_az cs in
            if lo = [] then None
            else (case literal '' '' s1 of
                    None \<Rightarrow> None
                  | Some s2 \<Rightarrow>
                      let up = takeWhile upper_AZ s2 in
                      if up = [] then None else Some (c # lo, up)))"

text \<open>\<^verbatim>\<open>Semester (\d), (\d{4}) - Progress Report (\d)\<close> tried at the head of \<open>s\<close>; the
  result is \<^verbatim>\<open>groups()\<close>.\<close>

definition se_match :: "string \<Rightarrow> (string \<times> string \<times> string) option" where
  "se_match s = do {
     s1 \<leftarrow> literal ''Semester '' s;
     (g1, s2) \<leftarrow> digits 1 s1;
     s3 \<leftarrow> literal '', '' s2;
     (g2, s4) \<leftarrow> digits 4 s3;
     s5 \<leftarrow> literal '' - Progress Report '' s4;
     (g3, s6) \<leftarrow> digits 1 s5;
     Some (g1, g2, g3)
   }"

text \<open>
  \<^verbatim>\<open>pattern.search(text)\<close> for a pattern that starts with \<^verbatim>\<open>^\<close> under
  \<^verbatim>\<open>re.MULTILINE\<close>: the positions are tried from left to right, \<^verbatim>\<open>^\<close> holds at the
  start of the text and just after each newline, and the first position where the rest
  of the pattern matches gives the result. \<open>bol\<close> says whether the current position is
  the start of a line.
\<close>

fun search_from :: "(string \<Rightarrow> 'a option) \<Rightarrow> bool \<Rightarrow> string \<Rightarrow> 'a option" where
  "search_from m bol [] = (if bol then m [] else None)"
| "search_from m bol (c # cs) =
     (case (if bol then m (c # cs) else None) of
        Some g \<Rightarrow> Some g
      | None \<Rightarrow> search_from m (c = CHR 0x0A) cs)"

definition re_search :: "(string \<Rightarrow> 'a option) \<Rightarrow> string \<Rightarrow> 'a option" where
  "re_search m page_text = search_from m True page_text"

section \<open>Metadata extraction\<close>

text \<open>
  The loop of \<^verbatim>\<open>extract_metadata\<close> over the pages; the second component is what it
  logs. The \<^verbatim>\<open>for\<close> statement stands outside the \<^verbatim>\<open>try\<close>: a page that fails to load
  raises out of the function. A page whose \<^verbatim>\<open>get_text()\<close> raises is logged and skipped.
  \<open>Inl e\<close>: the exception \<open>e\<close> leaves the function; \<open>Inr r\<close>: the function returns \<open>r\<close>.
\<close>

fun extract_metadata :: "document \<Rightarrow> (exn + metadata option) \<times> log_record list" where
  "extract_metadata [] = (Inr None, [])"
| "extract_metadata (Inl e # document) = (Inl e, [])"
| "extract_metadata (Inr page # document) =
     (case get_text page of
        Inl e \<Rightarrow>
          (case extract_metadata document of
             (res, lg) \<Rightarrow> (res, Extract_metadata_error e # lg))
      | Inr page_text \<Rightarrow>
          (case re_search nm_match page_text of
             None \<Rightarrow> extract_metadata document
           | Some (g1, g2) \<Rightarrow>
               (case re_search se_match page_text of
                  None \<Rightarrow> extract_metadata document
                | Some (s1, s2, s3) \<Rightarrow>
                    (Inr (Some \<lparr>firstname = g1, surname = g2, year = py_int s2,
                                semester = py_int s1, report = py_int s3\<rparr>), []))))"

section \<open>Table extraction\<close>

definition marker :: string where
  "marker = ''Areas Of Assessment''"

text \<open>
  The inner loop over \<^verbatim>\<open>table_search.tables\<close>. \<^verbatim>\<open>"Areas Of Assessment" in table_rows[0]\<close>
  is membership in the list of cells of the first row: some cell equals the marker.
  \<open>Inl e\<close>: \<^verbatim>\<open>table.extract()\<close> raised \<open>e\<close>; \<open>Inr (Some rows)\<close>: the function returns
  \<open>rows\<close>; \<open>Inr None\<close>: the loop ran to its end.
\<close>

fun scan_tables :: "table list \<Rightarrow> exn + row list option" where
  "scan_tables [] = Inr None"
| "scan_tables (t # tables) =
     (case t of
        Inl e \<Rightarrow> Inl e
      | Inr table_rows \<Rightarrow>
          if table_rows \<noteq> [] \<and> Some marker \<in> set (hd table_rows)
          then Inr (Some (drop 2 table_rows))
          else scan_tables tables)"

text \<open>
  The loop of \<^verbatim>\<open>extract_tabledata\<close> over the pages. Here too the \<^verbatim>\<open>for\<close> statement
  stands outside the \<^verbatim>\<open>try\<close>, and a page that fails to load raises out of the function.
  An exception of \<^verbatim>\<open>find_tables()\<close> or of an \<^verbatim>\<open>extract()\<close> is logged and ends the work
  on that page.
\<close>

fun extract_tabledata :: "document \<Rightarrow> (exn + row list option) \<times> log_record list" where
  "extract_tabledata [] = (Inr None, [])"
| "extract_tabledata (Inl e # document) = (Inl e, [])"
| "extract_tabledata (Inr page # document) =
     (case (case find_tables page of Inl e \<Rightarrow> Inl e | Inr tables \<Rightarrow> scan_tables tables) of
        Inl e \<Rightarrow>
          (case extract_tabledata document of
             (res, lg) \<Rightarrow> (res, Extract_tabledata_error e # lg))
      | Inr (Some rows) \<Rightarrow> (Inr (Some rows), [])
      | Inr None \<Rightarrow> extract_tabledata document)"

section \<open>Assembling one document\<close>

text \<open>
  The handler of \<^verbatim>\<open>extract_data\<close> is \<^verbatim>\<open>except Exception\<close>; its \<^verbatim>\<open>logging.exception()\<close>
  has no message argument and raises \<^verbatim>\<open>TypeError\<close> before anything is logged or
  returned.
\<close>

definition extract_data_handler :: "exn \<Rightarrow> exn + extracted_data option" where
  "extract_data_handler e = (if is_Exception e then Inl Type_Error else Inl e)"

text \<open>
  \<^verbatim>\<open>extract_data\<close>, given the outcome of \<^verbatim>\<open>pymupdf.open(current_file)\<close>. The handler
  runs when the document does not open and when a page fails to load in one of the two
  extractors. The tests are \<^verbatim>\<open>is None\<close>: an empty list of rows is a result.
\<close>

definition extract_data :: "exn + document \<Rightarrow> (exn + extracted_data option) \<times> log_record list" where
  "extract_data opened =
     (case opened of
        Inl e \<Rightarrow> (extract_data_handler e, [])
      | Inr current_document \<Rightarrow>
          (case extract_metadata current_document of
             (Inl e, lg) \<Rightarrow> (extract_data_handler e, lg)
           | (Inr None, lg) \<Rightarrow> (Inr None, lg)
           | (Inr (Some extracted_metadata), lg) \<Rightarrow>
               (case extract_tabledata current_document of
                  (Inl e, lg') \<Rightarrow> (extract_data_handler e, lg @ lg')
                | (Inr None, lg') \<Rightarrow> (Inr None, lg @ lg')
                | (Inr (Some extracted_tabledata), lg') \<Rightarrow>
                    (Inr (Some (metadata.extend extracted_metadata
                             (extracted_data.fields extracted_tabledata))), lg @ lg'))))"

section \<open>The store\<close>

text \<open>One row of \<^verbatim>\<open>mesc_reports\<close>, without the key \<^verbatim>\<open>id\<close> that the engine assigns.\<close>

record report_row =
  col_firstname :: string
  col_surname :: string
  col_year :: int
  col_semester :: int
  col_report :: int
  col_subject :: cell
  col_evidence_of_learning :: cell
  col_personal_learning :: cell
  col_working_with_others :: cell
  col_orderly_behaviour :: cell
  col_learning_outside_the_classroom :: cell

text \<open>
  How the engine answers during one connection: whether \<^verbatim>\<open>sqlite3.connect\<close> succeeds,
  how far the schema script gets, which rows an \<^verbatim>\<open>INSERT\<close> accepts, and whether the
  commit at the end of the \<^verbatim>\<open>with\<close> block succeeds. Each refusal is an
  \<^verbatim>\<open>sqlite3.Error\<close>. The script is \<^verbatim>\<open>DROP TABLE IF EXISTS\<close> followed by
  \<^verbatim>\<open>CREATE TABLE\<close>, run by \<^verbatim>\<open>executescript\<close> outside a transaction: when the second
  statement is refused the table is already gone.
\<close>

datatype script_result = Script_done | Drop_refused | Create_refused

record sql_env =
  connect_ok :: bool
  script :: script_result
  insert_ok :: "report_row \<Rightarrow> bool"
  commit_ok :: bool

text \<open>The calls made to the two libraries, in order.\<close>

datatype call =
    Open string
  | Connect
  | Executescript
  | Execute report_row
  | Commit
  | Rollback

text \<open>
  The state outside the script: the committed rows of \<^verbatim>\<open>mesc_reports\<close>, the rows
  inserted in the transaction of the current connection (a new connection starts with
  none), the number of connections made so far, the log and the calls.
\<close>

record world =
  stored :: "report_row list"
  pending :: "report_row list"
  conns :: nat
  log :: "log_record list"
  calls :: "call list"

definition logged :: "log_record \<Rightarrow> world \<Rightarrow> world" where
  "logged r w = w\<lparr>log := log w @ [r]\<rparr>"

definition called :: "call \<Rightarrow> world \<Rightarrow> world" where
  "called c w = w\<lparr>calls := calls w @ [c]\<rparr>"

text \<open>The parameter tuple of the \<^verbatim>\<open>INSERT\<close>: \<^verbatim>\<open>row[0]\<close> to \<^verbatim>\<open>row[5]\<close> raise
  \<^verbatim>\<open>IndexError\<close> on a row of fewer than six cells.\<close>

definition insert_params :: "'a extracted_data_scheme \<Rightarrow> row \<Rightarrow> exn + report_row" where
  "insert_params d row =
     (if length row < 6 then Inl Index_Error
      else Inr \<lparr>col_firstname = firstname d, col_surname = surname d, col_year = year d,
                col_semester = semester d, col_report = report d,
                col_subject = row ! 0,
                col_evidence_of_learning = row ! 1,
                col_personal_learning = row ! 2,
                col_working_with_others = row ! 3,
                col_orderly_behaviour = row ! 4,
                col_learning_outside_the_classroom = row ! 5\<rparr>)"

text \<open>
  The loop over \<^verbatim>\<open>extracted_data["all_rows"]\<close> inside the connection. The inner handler
  is \<^verbatim>\<open>except sqlite3.Error\<close>: a refused insert is logged and the loop goes on; any other
  exception leaves the loop.
\<close>

fun insert_rows ::
  "sql_env \<Rightarrow> 'a extracted_data_scheme \<Rightarrow> row list \<Rightarrow> world \<Rightarrow> exn option \<times> world" where
  "insert_rows env d [] w = (None, w)"
| "insert_rows env d (row # rows) w =
     (case (case insert_params d row of
              Inl e \<Rightarrow> (Some e, w)
            | Inr r \<Rightarrow>
                if insert_ok env r
                then (None, (called (Execute r) w)\<lparr>pending := pending w @ [r]\<rparr>)
                else (Some Sqlite3_Error, called (Execute r) w)) of
        (None, w') \<Rightarrow> insert_rows env d rows w'
      | (Some e, w') \<Rightarrow>
          if is_sqlite3_Error e
          then insert_rows env d rows (logged (Write_sql_row_error e) w')
          else (Some e, w'))"

text \<open>
  \<^verbatim>\<open>write_sql\<close>. The connection is a context manager: leaving the \<^verbatim>\<open>with\<close> block
  normally commits the transaction, leaving it by an exception rolls the transaction
  back and lets the exception go on. The outer handler is \<^verbatim>\<open>except sqlite3.Error\<close>.
  The result is the exception that leaves \<^verbatim>\<open>write_sql\<close>, if any, and the new state.
\<close>

definition write_sql ::
  "(nat \<Rightarrow> sql_env) \<Rightarrow> 'a extracted_data_scheme \<Rightarrow> world \<Rightarrow> exn option \<times> world" where
  "write_sql sql d w =
     (let env = sql (conns w);
          w0 = called Connect (w\<lparr>conns := Suc (conns w), pending := []\<rparr>);
          body =
            (if \<not> connect_ok env then (Some Sqlite3_Error, w0)
             else (case insert_rows env d (all_rows d) w0 of
                     (Some e, w1) \<Rightarrow> (Some e, called Rollback (w1\<lparr>pending := []\<rparr>))
                   | (None, w1) \<Rightarrow>
                       if commit_ok env
                       then (None, called Commit
                               (w1\<lparr>stored := stored w1 @ pending w1, pending := []\<rparr>))
                       else (Some Sqlite3_Error,
                               called Rollback (called Commit (w1\<lparr>pending := []\<rparr>)))))
      in (case body of
            (None, w2) \<Rightarrow> (None, w2)
          | (Some e, w2) \<Rightarrow>
              if is_sqlite3_Error e then (None, logged (Write_sql_config_error e) w2)
              else (Some e, w2)))"

text \<open>\<^verbatim>\<open>setup_sql\<close>: the script drops and recreates the table; a refusal is logged.\<close>

definition setup_sql :: "(nat \<Rightarrow> sql_env) \<Rightarrow> world \<Rightarrow> world" where
  "setup_sql sql w =
     (let env = sql (conns w);
          w0 = called Connect (w\<lparr>conns := Suc (conns w)\<rparr>)
      in if \<not> connect_ok env then logged (Setup_sql_error Sqlite3_Error) w0
         else (case script env of
                 Script_done \<Rightarrow> called Commit ((called Executescript w0)\<lparr>stored := []\<rparr>)
               | Drop_refused \<Rightarrow>
                   logged (Setup_sql_error Sqlite3_Error)
                     (called Rollback (called Executescript w0))
               | Create_refused \<Rightarrow>
                   logged (Setup_sql_error Sqlite3_Error)
                     (called Rollback ((called Executescript w0)\<lparr>stored := []\<rparr>))))"

section \<open>The batch driver\<close>

text \<open>What the script finds around it: how each path opens, the answers of the engine
  per connection, and the paths that \<^verbatim>\<open>PDF_DIR.glob(PDF_GLOB)\<close> yields.\<close>

record env =
  pymupdf_open :: "string \<Rightarrow> exn + document"
  sqlite :: "nat \<Rightarrow> sql_env"
  pdf_glob :: "string list"

text \<open>The body of the \<^verbatim>\<open>try\<close> in \<^verbatim>\<open>iterate_files\<close> for one file.\<close>

definition process_file :: "env \<Rightarrow> string \<Rightarrow> world \<Rightarrow> exn option \<times> world" where
  "process_file E pdf_file w =
     (let w0 = called (Open pdf_file) w in
      case extract_data (pymupdf_open E pdf_file) of
        (Inl e, lg) \<Rightarrow> (Some e, w0\<lparr>log := log w0 @ lg\<rparr>)
      | (Inr None, lg) \<Rightarrow> (None, w0\<lparr>log := log w0 @ lg\<rparr>)
      | (Inr (Some extracted_data), lg) \<Rightarrow>
          write_sql (sqlite E) extracted_data (w0\<lparr>log := log w0 @ lg\<rparr>))"

text \<open>\<^verbatim>\<open>iterate_files\<close>: the handler is \<^verbatim>\<open>except Exception\<close>, it logs and continues. The
  first component is an exception that would leave the loop.\<close>

fun iterate_files :: "env \<Rightarrow> string list \<Rightarrow> world \<Rightarrow> exn option \<times> world" where
  "iterate_files E [] w = (None, w)"
| "iterate_files E (pdf_file # files) w =
     (case process_file E pdf_file w of
        (None, w') \<Rightarrow> iterate_files E files w'
      | (Some e, w') \<Rightarrow>
          if is_Exception e then iterate_files E files (logged (Iterate_files_error e) w')
          else (Some e, w'))"

text \<open>\<^verbatim>\<open>main\<close>: \<^verbatim>\<open>sorted(..., reverse=True)\<close> orders the paths of one directory by
  file name, greatest first.\<close>

definition main :: "env \<Rightarrow> world \<Rightarrow> exn option \<times> world" where
  "main E w =
     (let w1 = setup_sql (sqlite E) w;
          file_list = rev (sort (pdf_glob E))
      in iterate_files E file_list w1)"

section \<open>Notions used to state the properties\<close>

text \<open>Whether position \<open>i\<close> of a text is the start of a line, with \<open>bol\<close> standing for
  position 0; \<open>bol\<close> generalises over the suffixes that the search walks through.\<close>

definition starts :: "bool \<Rightarrow> string \<Rightarrow> nat \<Rightarrow> bool" where
  "starts bol s i = (if i = 0 then bol else s ! (i - 1) = CHR 0x0A)"

text \<open>An occurrence of a pattern at position \<open>i\<close> of a text, and the leftmost one.\<close>

definition line_start :: "string \<Rightarrow> nat \<Rightarrow> bool" where
  "line_start s i \<longleftrightarrow> i = 0 \<or> s ! (i - 1) = CHR 0x0A"

definition match_at :: "(string \<Rightarrow> 'a option) \<Rightarrow> string \<Rightarrow> nat \<Rightarrow> 'a option" where
  "match_at m s i = (if i \<le> length s \<and> line_start s i then m (drop i s) else None)"

definition leftmost :: "(string \<Rightarrow> 'a option) \<Rightarrow> string \<Rightarrow> nat \<Rightarrow> bool" where
  "leftmost m s i \<longleftrightarrow> match_at m s i \<noteq> None \<and> (\<forall>j<i. match_at m s j = None)"

definition both_patterns_match :: "page \<Rightarrow> bool" where
  "both_patterns_match page \<longleftrightarrow>
     (case get_text page of
        Inl e \<Rightarrow> False
      | Inr page_text \<Rightarrow>
          re_search nm_match page_text \<noteq> None \<and> re_search se_match page_text \<noteq> None)"

text \<open>
  The pages that the iteration over a document yields, which are those in front of the
  first failed load; the exception of that load, if there is one; and all the pages of
  the document that load.
\<close>

definition loaded_pages :: "document \<Rightarrow> page list" where
  "loaded_pages document = map projr (takeWhile (\<lambda>x. \<not> isl x) document)"

definition load_failure :: "document \<Rightarrow> exn option" where
  "load_failure document =
     (case dropWhile (\<lambda>x. \<not> isl x) document of
        [] \<Rightarrow> None
      | x # _ \<Rightarrow> (case x of Inl e \<Rightarrow> Some e | Inr page \<Rightarrow> None))"

definition document_pages :: "document \<Rightarrow> page list" where
  "document_pages document = map projr (filter (\<lambda>x. \<not> isl x) document)"

text \<open>The test that \<^verbatim>\<open>extract_tabledata\<close> applies to a table, and the tables that its
  scan gets to see: on a page whose \<^verbatim>\<open>find_tables()\<close> raises none, otherwise the tables
  in front of the first one whose \<^verbatim>\<open>extract()\<close> raises; over the pages that the
  iteration yields.\<close>

definition has_marker :: "row list \<Rightarrow> bool" where
  "has_marker table_rows \<longleftrightarrow> table_rows \<noteq> [] \<and> Some marker \<in> set (hd table_rows)"

definition reached_on_page :: "page \<Rightarrow> row list list" where
  "reached_on_page page =
     (case find_tables page of
        Inl e \<Rightarrow> []
      | Inr tables \<Rightarrow> map projr (takeWhile (\<lambda>t. \<not> isl t) tables))"

definition reached_tables :: "document \<Rightarrow> row list list" where
  "reached_tables document = concat (map reached_on_page (loaded_pages document))"

text \<open>
  Table selection as claim C3 words it: the first table, over the pages in order and
  the tables of each page in order, that is non-empty and whose first row's first cell
  contains the marker as a piece of its text; its rows from index 2 on.
\<close>

fun contains :: "string \<Rightarrow> string \<Rightarrow> bool" where
  "contains piece [] = (piece = [])"
| "contains piece (c # cs) = (take (length piece) (c # cs) = piece \<or> contains piece cs)"

definition claimed_marker :: "row list \<Rightarrow> bool" where
  "claimed_marker table_rows \<longleftrightarrow>
     (case table_rows of
        [] \<Rightarrow> False
      | first_row # _ \<Rightarrow>
          (case first_row of
             [] \<Rightarrow> False
           | first_cell # _ \<Rightarrow>
               (case first_cell of None \<Rightarrow> False | Some cell_text \<Rightarrow> contains marker cell_text)))"

definition document_tables :: "document \<Rightarrow> row list list" where
  "document_tables document =
     concat (map (\<lambda>page. case find_tables page of
                            Inl e \<Rightarrow> []
                          | Inr tables \<Rightarrow> map projr (filter (\<lambda>t. \<not> isl t) tables))
               (document_pages document))"

definition claimed_extract_table :: "document \<Rightarrow> row list option" where
  "claimed_extract_table document =
     map_option (drop 2) (find claimed_marker (document_tables document))"

text \<open>The row that an \<^verbatim>\<open>INSERT\<close> binds for a table row of at least six cells.\<close>

definition report_row_of :: "'a extracted_data_scheme \<Rightarrow> row \<Rightarrow> report_row" where
  "report_row_of d row =
     \<lparr>col_firstname = firstname d, col_surname = surname d, col_year = year d,
      col_semester = semester d, col_report = report d,
      col_subject = row ! 0,
      col_evidence_of_learning = row ! 1,
      col_personal_learning = row ! 2,
      col_working_with_others = row ! 3,
      col_orderly_behaviour = row ! 4,
      col_learning_outside_the_classroom = row ! 5\<rparr>"

definition long_enough :: "row \<Rightarrow> bool" where
  "long_enough row \<longleftrightarrow> 6 \<le> length row"

text \<open>The records logged for the refused inserts, and the files opened among a list of
  calls.\<close>

definition row_errors :: "sql_env \<Rightarrow> report_row list \<Rightarrow> log_record list" where
  "row_errors env rs =
     map (\<lambda>r. Write_sql_row_error Sqlite3_Error) (filter (\<lambda>r. \<not> insert_ok env r) rs)"

fun opens :: "call list \<Rightarrow> string list" where
  "opens [] = []"
| "opens (Open f # cs) = f # opens cs"
| "opens (c # cs) = opens cs"

section \<open>Example inputs\<close>

definition page_name_only :: page where
  "page_name_only = \<lparr>get_text = Inr ''Mesc COLLEGE\<newline>Student reports'', find_tables = Inr []\<rparr>"

definition page_unreadable :: page where
  "page_unreadable = \<lparr>get_text = Inl Pdf_Error, find_tables = Inl Pdf_Error\<rparr>"

definition page_jane :: page where
  "page_jane = \<lparr>get_text = Inr ''Jane SMITH\<newline>...\<newline>Semester 1, 2024 - Progress Report 2'',
     find_tables = Inr []\<rparr>"

definition page_john :: page where
  "page_john = \<lparr>get_text = Inr ''John DOE\<newline>Semester 2, 2025 - Progress Report 3'',
     find_tables = Inr []\<rparr>"

definition page_two_names :: page where
  "page_two_names = \<lparr>get_text = Inr (''Report for\<newline>Jane SMITH\<newline>John DOE\<newline>'' @
       ''Semester 1, 2024 - Progress Report 2\<newline>Semester 2, 2025 - Progress Report 3''),
     find_tables = Inr []\<rparr>"

definition header_row :: row where
  "header_row = [Some ''Areas Of Assessment'', Some '''', Some '''', Some '''', Some '''', Some '''']"

definition spacer_row :: row where
  "spacer_row = [Some '''', Some '''', Some '''', Some '''', Some '''', Some '''']"

definition maths_row :: row where
  "maths_row = [Some ''Mathematics'', Some ''Good'', Some ''Good'', Some ''Good'', Some ''Good'',
     Some ''Good'']"

definition english_row :: row where
  "english_row = [Some ''English'', Some ''Fair'', Some ''Good'', None, Some ''Good'', Some ''Fair'']"

definition short_row :: row where
  "short_row = [Some ''Science'', Some ''Good'']"

definition wide_row :: row where
  "wide_row = [Some ''Art'', Some ''A'', Some ''B'', Some ''C'', Some ''D'', Some ''E'',
     Some ''comment'', None]"

text \<open>The document of the specification's end-to-end example.\<close>

definition page_maths_table :: page where
  "page_maths_table = \<lparr>get_text = Inr '''',
     find_tables = Inr [Inr [header_row, spacer_row, maths_row]]\<rparr>"

definition doc_jane :: document where
  "doc_jane = [Inr page_jane, Inr page_maths_table]"

text \<open>A marker that is not in the first cell, and a first cell that merely contains it.\<close>

definition table_marker_second :: "row list" where
  "table_marker_second =
     [[Some ''Subject'', Some ''Areas Of Assessment''], spacer_row, english_row]"

definition table_marker_inside :: "row list" where
  "table_marker_inside =
     [[Some ''Areas Of Assessment 2024'', Some ''''], spacer_row, maths_row]"

definition doc_marker_second :: document where
  "doc_marker_second = [Inr \<lparr>get_text = Inr '''',
     find_tables = Inr [Inr table_marker_second, Inr [header_row, spacer_row, maths_row]]\<rparr>]"

definition doc_marker_inside :: document where
  "doc_marker_inside =
     [Inr \<lparr>get_text = Inr '''', find_tables = Inr [Inr table_marker_inside]\<rparr>]"

text \<open>A page whose first table fails to extract, in front of a page with the table.\<close>

definition doc_table_error :: document where
  "doc_table_error =
     [Inr \<lparr>get_text = Inr '''',
           find_tables = Inr [Inl Pdf_Error, Inr [header_row, spacer_row, english_row]]\<rparr>,
      Inr page_maths_table]"

text \<open>A document whose marked table has only the header and the spacer row.\<close>

definition doc_two_row_table :: document where
  "doc_two_row_table =
     [Inr page_jane,
      Inr \<lparr>get_text = Inr '''', find_tables = Inr [Inr [header_row, spacer_row]]\<rparr>]"

text \<open>A document whose table has a row of two cells between two full rows.\<close>

definition doc_short_row :: document where
  "doc_short_row =
     [Inr page_jane,
      Inr \<lparr>get_text = Inr [],
           find_tables = Inr [Inr [header_row, spacer_row, maths_row, short_row, english_row]]\<rparr>]"

text \<open>
  An encrypted document opens, and loading its first page raises. A document with a
  damaged second page: what stands in front of it loads. A document whose table stands
  in front of the damaged page.
\<close>

definition doc_encrypted :: document where
  "doc_encrypted = [Inl Pdf_Error]"

definition doc_damaged_page :: document where
  "doc_damaged_page = [Inr page_name_only, Inl Pdf_Error, Inr page_jane, Inr page_maths_table]"

definition doc_table_then_damage :: document where
  "doc_table_then_damage = [Inr page_maths_table, Inl Pdf_Error]"

definition md_jane :: metadata where
  "md_jane = \<lparr>firstname = ''Jane'', surname = ''SMITH'', year = 2024, semester = 1, report = 2\<rparr>"

definition result_of :: "row list \<Rightarrow> extracted_data" where
  "result_of rows = metadata.extend md_jane (extracted_data.fields rows)"

text \<open>Engines: one that accepts everything, one that refuses the English row, one that
  cannot be reached; and an empty store.\<close>

definition sql_fine :: sql_env where
  "sql_fine = \<lparr>connect_ok = True, script = Script_done, insert_ok = (\<lambda>r. True), commit_ok = True\<rparr>"

definition sql_picky :: sql_env where
  "sql_picky = \<lparr>connect_ok = True, script = Script_done,
     insert_ok = (\<lambda>r. col_subject r \<noteq> Some ''English''), commit_ok = True\<rparr>"

definition sql_down :: sql_env where
  "sql_down = \<lparr>connect_ok = False, script = Drop_refused, insert_ok = (\<lambda>r. False), commit_ok = False\<rparr>"

definition world0 :: world where
  "world0 = \<lparr>stored = [], pending = [], conns = 0, log = [], calls = []\<rparr>"

definition env_of :: "(nat \<Rightarrow> sql_env) \<Rightarrow> env" where
  "env_of sql = \<lparr>pymupdf_open = (\<lambda>f. if f = ''a.pdf'' then Inr doc_jane
                                     else if f = ''b.pdf'' then Inr doc_two_row_table
                                     else if f = ''d.pdf'' then Inr doc_short_row
                                     else Inl Pdf_Error),
     sqlite = sql, pdf_glob = [''a.pdf'', ''b.pdf'', ''c.pdf'']\<rparr>"

text \<open>The rows of \<^verbatim>\<open>mesc_reports\<close> that the example table rows give under Jane's
  metadata, and an engine that is down for the first connection only.\<close>

definition maths_report :: report_row where
  "maths_report = \<lparr>col_firstname = ''Jane'', col_surname = ''SMITH'', col_year = 2024,
     col_semester = 1, col_report = 2, col_subject = Some ''Mathematics'',
     col_evidence_of_learning = Some ''Good'', col_personal_learning = Some ''Good'',
     col_working_with_others = Some ''Good'', col_orderly_behaviour = Some ''Good'',
     col_learning_outside_the_classroom = Some ''Good''\<rparr>"

definition english_report :: report_row where
  "english_report = \<lparr>col_firstname = ''Jane'', col_surname = ''SMITH'', col_year = 2024,
     col_semester = 1, col_report = 2, col_subject = Some ''English'',
     col_evidence_of_learning = Some ''Fair'', col_personal_learning = Some ''Good'',
     col_working_with_others = None, col_orderly_behaviour = Some ''Good'',
     col_learning_outside_the_classroom = Some ''Fair''\<rparr>"

definition art_report :: report_row where
  "art_report = \<lparr>col_firstname = ''Jane'', col_surname = ''SMITH'', col_year = 2024,
     col_semester = 1, col_report = 2, col_subject = Some ''Art'',
     col_evidence_of_learning = Some ''A'', col_personal_learning = Some ''B'',
     col_working_with_others = Some ''C'', col_orderly_behaviour = Some ''D'',
     col_learning_outside_the_classroom = Some ''E''\<rparr>"

definition sql_down_once :: "nat \<Rightarrow> sql_env" where
  "sql_down_once n = (if n = 0 then sql_down else sql_fine)"

section \<open>The search returns the leftmost occurrence\<close>

lemma starts_Suc: "starts bol (c # cs) (Suc i) = starts (c = CHR 0x0A) cs i"
  by (cases i) (simp_all add: starts_def)

lemma starts_0: "starts bol s 0 = bol"
  by (simp add: starts_def)

lemma search_from_Some:
  "search_from m bol s = Some g \<longleftrightarrow>
     (\<exists>i\<le>length s. starts bol s i \<and> m (drop i s) = Some g \<and>
        (\<forall>j<i. starts bol s j \<longrightarrow> m (drop j s) = None))"
proof (induction s arbitrary: bol)
  case Nil
  then show ?case by (auto simp: starts_0)
next
  case (Cons c cs)
  let ?P = "\<lambda>b s i. starts b s i \<and> m (drop i s) = Some g \<and>
        (\<forall>j<i. starts b s j \<longrightarrow> m (drop j s) = None)"
  show ?case
  proof (cases "bol \<and> m (c # cs) \<noteq> None")
    case True
    then obtain g' where g': "bol" "m (c # cs) = Some g'" by auto
    have "(\<exists>i\<le>length (c # cs). ?P bol (c # cs) i) \<longleftrightarrow> g' = g"
    proof
      assume "\<exists>i\<le>length (c # cs). ?P bol (c # cs) i"
      then obtain i where i: "?P bol (c # cs) i" by blast
      show "g' = g"
      proof (cases i)
        case 0
        with i g' show ?thesis by simp
      next
        case (Suc k)
        with i have "starts bol (c # cs) 0 \<longrightarrow> m (drop 0 (c # cs)) = None" by blast
        with g' show ?thesis by (simp add: starts_0)
      qed
    next
      assume "g' = g"
      with g' have "?P bol (c # cs) 0" by (simp add: starts_0)
      then show "\<exists>i\<le>length (c # cs). ?P bol (c # cs) i" by blast
    qed
    with g' show ?thesis by simp
  next
    case False
    then have no0: "starts bol (c # cs) 0 \<longrightarrow> m (drop 0 (c # cs)) = None"
      by (auto simp: starts_0)
    from False have step: "search_from m bol (c # cs) = search_from m (c = CHR 0x0A) cs"
      by auto
    have ih: "search_from m (c = CHR 0x0A) cs = Some g \<longleftrightarrow>
        (\<exists>i\<le>length cs. ?P (c = CHR 0x0A) cs i)"
      by (rule Cons.IH)
    have shift: "(\<exists>i\<le>length cs. ?P (c = CHR 0x0A) cs i) \<longleftrightarrow>
        (\<exists>i\<le>length (c # cs). ?P bol (c # cs) i)"
    proof
      assume "\<exists>i\<le>length cs. ?P (c = CHR 0x0A) cs i"
      then obtain i where i: "i \<le> length cs" "?P (c = CHR 0x0A) cs i" by blast
      have "\<forall>j<Suc i. starts bol (c # cs) j \<longrightarrow> m (drop j (c # cs)) = None"
      proof (intro allI impI)
        fix j assume "j < Suc i" "starts bol (c # cs) j"
        then show "m (drop j (c # cs)) = None"
        proof (cases j)
          case 0
          with no0 \<open>starts bol (c # cs) j\<close> show ?thesis by simp
        next
          case (Suc j')
          with \<open>j < Suc i\<close> \<open>starts bol (c # cs) j\<close>
          have "j' < i" "starts (c = CHR 0x0A) cs j'" by (simp_all add: starts_Suc)
          with i(2) have "m (drop j' cs) = None" by blast
          with Suc show ?thesis by simp
        qed
      qed
      with i have "Suc i \<le> length (c # cs) \<and> ?P bol (c # cs) (Suc i)"
        by (simp add: starts_Suc)
      then show "\<exists>i\<le>length (c # cs). ?P bol (c # cs) i" by blast
    next
      assume "\<exists>i\<le>length (c # cs). ?P bol (c # cs) i"
      then obtain i where i: "i \<le> length (c # cs)" "?P bol (c # cs) i" by blast
      from i(2) False obtain k where k: "i = Suc k"
        by (cases i) (auto simp: starts_0)
      have "\<forall>j<k. starts (c = CHR 0x0A) cs j \<longrightarrow> m (drop j cs) = None"
      proof (intro allI impI)
        fix j assume "j < k" "starts (c = CHR 0x0A) cs j"
        then have "Suc j < i" "starts bol (c # cs) (Suc j)"
          using k by (simp_all add: starts_Suc)
        with i(2) have "m (drop (Suc j) (c # cs)) = None"
          by blast
        then show "m (drop j cs) = None" by simp
      qed
      with i k have "k \<le> length cs \<and> ?P (c = CHR 0x0A) cs k"
        by (simp add: starts_Suc)
      then show "\<exists>i\<le>length cs. ?P (c = CHR 0x0A) cs i" by blast
    qed
    show ?thesis unfolding step ih shift ..
  qed
qed


lemma starts_True: "starts True s i = line_start s i"
  by (auto simp: starts_def line_start_def)

lemma re_search_leftmost:
  "re_search m s = Some g \<longleftrightarrow> (\<exists>i. leftmost m s i \<and> match_at m s i = Some g)"
proof
  assume "re_search m s = Some g"
  then obtain i where i: "i \<le> length s" "line_start s i" "m (drop i s) = Some g"
    "\<forall>j<i. line_start s j \<longrightarrow> m (drop j s) = None"
    unfolding re_search_def search_from_Some starts_True by blast
  then have "leftmost m s i \<and> match_at m s i = Some g"
    by (simp add: leftmost_def match_at_def)
  then show "\<exists>i. leftmost m s i \<and> match_at m s i = Some g" ..
next
  assume "\<exists>i. leftmost m s i \<and> match_at m s i = Some g"
  then obtain i where i: "leftmost m s i" "match_at m s i = Some g" by blast
  from i(2) have a: "i \<le> length s" "line_start s i" "m (drop i s) = Some g"
    by (simp_all add: match_at_def split: if_splits)
  have b: "\<forall>j<i. line_start s j \<longrightarrow> m (drop j s) = None"
  proof (intro allI impI)
    fix j assume j: "j < i" "line_start s j"
    with i(1) have "match_at m s j = None" by (simp add: leftmost_def)
    with j a(1) show "m (drop j s) = None" by (simp add: match_at_def)
  qed
  from a b show "re_search m s = Some g"
    unfolding re_search_def search_from_Some starts_True by blast
qed


lemmas regex_defs = re_search_def nm_match_def se_match_def literal_def digits_def digit_def
  upper_AZ_def lower_az_def py_int_def digit_value_def


section \<open>The name pattern against its decompositions\<close>

text \<open>
  A match of \<^verbatim>\<open>([A-Z][a-z]+) ([A-Z]+)\<close> at the head of a text splits the text into an
  upper-case letter, a non-empty run of lower-case letters, a space, a non-empty run of
  upper-case letters and a rest. \<^const>\<open>nm_match\<close> succeeds exactly on such texts, and
  its second group is the longest run that the greedy \<^verbatim>\<open>[A-Z]+\<close> can take.
\<close>

lemma space_not_lower: "\<not> lower_az (CHR '' '')"
  by (simp add: lower_az_def)

lemma literal_Some: "literal lit s = Some r \<longleftrightarrow> s = lit @ r"
proof
  assume "literal lit s = Some r"
  then have "take (length lit) s = lit" "r = drop (length lit) s"
    by (simp_all add: literal_def split: if_splits)
  then show "s = lit @ r"
    by (metis append_take_drop_id)
next
  assume "s = lit @ r"
  then show "literal lit s = Some r" by (simp add: literal_def)
qed

lemma nm_match_sound:
  assumes "nm_match s = Some (g1, g2)"
  shows "\<exists>c lo up rest. s = c # lo @ CHR '' '' # up @ rest \<and> upper_AZ c \<and>
     lo \<noteq> [] \<and> list_all lower_az lo \<and> up \<noteq> [] \<and> list_all upper_AZ up \<and>
     g1 = c # lo \<and> g2 = up"
proof -
  from assms obtain c cs where s: "s = c # cs" "upper_AZ c"
    by (cases s) (auto simp: nm_match_def split: if_splits)
  let ?lo = "takeWhile lower_az cs"
  from assms s have lo: "?lo \<noteq> []"
    by (auto simp: nm_match_def Let_def split: if_splits)
  with assms s obtain s2 where lit: "literal '' '' (dropWhile lower_az cs) = Some s2"
    by (cases "literal '' '' (dropWhile lower_az cs)") (auto simp: nm_match_def Let_def)
  with assms s lo have up: "takeWhile upper_AZ s2 \<noteq> []" "g1 = c # ?lo"
    "g2 = takeWhile upper_AZ s2"
    by (auto simp: nm_match_def Let_def split: if_splits)
  from lit have "dropWhile lower_az cs = CHR '' '' # s2"
    by (simp add: literal_Some)
  then have "?lo @ CHR '' '' # s2 = cs"
    by (metis takeWhile_dropWhile_id)
  then have "cs = ?lo @ CHR '' '' # takeWhile upper_AZ s2 @ dropWhile upper_AZ s2"
    by simp
  moreover have "list_all lower_az ?lo" "list_all upper_AZ (takeWhile upper_AZ s2)"
    by (auto simp: list_all_iff dest: set_takeWhileD)
  ultimately show ?thesis using s lo up by blast
qed

lemma nm_match_greedy:
  assumes "upper_AZ c" and "lo \<noteq> []" and "list_all lower_az lo"
    and "up \<noteq> []" and "list_all upper_AZ up"
  shows "nm_match (c # lo @ CHR '' '' # up @ rest) =
     Some (c # lo, up @ takeWhile upper_AZ rest)"
proof -
  from assms(3) have lo: "takeWhile lower_az (lo @ CHR '' '' # up @ rest) = lo"
    "dropWhile lower_az (lo @ CHR '' '' # up @ rest) = CHR '' '' # up @ rest"
    by (simp_all add: list_all_iff takeWhile_append2 dropWhile_append2 space_not_lower)
  from assms(5) have up: "takeWhile upper_AZ (up @ rest) = up @ takeWhile upper_AZ rest"
    by (simp add: list_all_iff takeWhile_append2)
  from assms(1,2,4) show ?thesis
    by (simp add: nm_match_def lo up literal_def)
qed

section \<open>The pages that a scan reaches\<close>

lemma loaded_pages_simps:
  "loaded_pages [] = []"
  "loaded_pages (Inl e # document) = []"
  "loaded_pages (Inr page # document) = page # loaded_pages document"
  by (simp_all add: loaded_pages_def)

lemma load_failure_simps:
  "load_failure [] = None"
  "load_failure (Inl e # document) = Some e"
  "load_failure (Inr page # document) = load_failure document"
  by (simp_all add: load_failure_def)

lemma extract_metadata_skip:
  "\<not> both_patterns_match page \<Longrightarrow>
     fst (extract_metadata (Inr page # document)) = fst (extract_metadata document)"
  by (auto simp: both_patterns_match_def split: sum.splits option.splits prod.splits)

lemma extract_metadata_hit:
  assumes "get_text page = Inr page_text"
    and "re_search nm_match page_text = Some (g1, g2)"
    and "re_search se_match page_text = Some (s1, s2, s3)"
  shows "extract_metadata (Inr page # document) =
     (Inr (Some \<lparr>firstname = g1, surname = g2, year = py_int s2,
                 semester = py_int s1, report = py_int s3\<rparr>), [])"
  using assms by simp

lemma both_patterns_matchE:
  assumes "both_patterns_match page"
  obtains page_text g1 g2 s1 s2 s3 where "get_text page = Inr page_text"
    and "re_search nm_match page_text = Some (g1, g2)"
    and "re_search se_match page_text = Some (s1, s2, s3)"
  using assms by (auto simp: both_patterns_match_def split: sum.splits)

lemma extract_metadata_stops:
  "both_patterns_match page \<Longrightarrow>
     extract_metadata (pre @ Inr page # rest) = extract_metadata (pre @ [Inr page])"
proof (induction pre)
  case Nil
  from Nil obtain page_text g1 g2 s1 s2 s3 where "get_text page = Inr page_text"
    "re_search nm_match page_text = Some (g1, g2)"
    "re_search se_match page_text = Some (s1, s2, s3)"
    by (rule both_patterns_matchE)
  then show ?case by (simp add: extract_metadata_hit)
next
  case (Cons x pre)
  then show ?case
    by (cases x) (simp_all split: sum.splits option.splits prod.splits)
qed

lemma extract_metadata_first:
  "case find both_patterns_match (loaded_pages document) of
     None \<Rightarrow>
       fst (extract_metadata document) =
         (case load_failure document of Some e \<Rightarrow> Inl e | None \<Rightarrow> Inr None)
   | Some page \<Rightarrow>
       (\<exists>page_text g1 g2 s1 s2 s3.
          get_text page = Inr page_text \<and>
          re_search nm_match page_text = Some (g1, g2) \<and>
          re_search se_match page_text = Some (s1, s2, s3) \<and>
          fst (extract_metadata document) =
            Inr (Some \<lparr>firstname = g1, surname = g2, year = py_int s2,
                        semester = py_int s1, report = py_int s3\<rparr>))"
proof (induction document)
  case Nil
  then show ?case by (simp add: loaded_pages_simps load_failure_simps)
next
  case (Cons x document)
  show ?case
  proof (cases x)
    case (Inl e)
    then show ?thesis by (simp add: loaded_pages_simps load_failure_simps)
  next
    case (Inr p)
    show ?thesis
    proof (cases "both_patterns_match p")
      case True
      then obtain page_text g1 g2 s1 s2 s3 where "get_text p = Inr page_text"
        "re_search nm_match page_text = Some (g1, g2)"
        "re_search se_match page_text = Some (s1, s2, s3)"
        by (rule both_patterns_matchE)
      with True Inr show ?thesis
        by (simp add: loaded_pages_simps extract_metadata_hit del: extract_metadata.simps)
    next
      case False
      with Cons Inr show ?thesis
        by (simp add: loaded_pages_simps load_failure_simps extract_metadata_skip
            del: extract_metadata.simps split: option.splits)
    qed
  qed
qed

section \<open>Properties of metadata extraction\<close>

text \<open>
  The return that claim C2 states does not happen when a page fails to load. An
  encrypted document has no page that both patterns match, and the scan raises instead
  of returning \<open>None\<close>. In the document with a damaged second page the first page that
  both patterns match is the third, and the scan raises before it gets there.
\<close>

theorem extract_metadata_load_failure_counterexample:
  "find both_patterns_match (document_pages doc_encrypted) = None \<and>
   fst (extract_metadata doc_encrypted) = Inl Pdf_Error \<and>
   fst (extract_metadata doc_encrypted) \<noteq> Inr None \<and>
   find both_patterns_match (document_pages doc_damaged_page) = Some page_jane \<and>
   fst (extract_metadata doc_damaged_page) = Inl Pdf_Error"
  by (simp add: doc_encrypted_def doc_damaged_page_def document_pages_def
      both_patterns_match_def page_name_only_def page_jane_def regex_defs)

text \<open>
  Claim C2, amended. For every document, metadata extraction goes through the pages in
  document order for as long as they load. It returns the fields captured on the first
  page whose text both patterns match, and does not look at anything behind that page:
  the whole outcome is that of the document cut after it. When no page in front of a
  failed load matches both patterns, the exception of that load leaves the function;
  when every page loads and none matches both patterns, the result is \<open>None\<close>.
\<close>

theorem extract_metadata_first_page:
  "(case find both_patterns_match (loaded_pages document) of
      None \<Rightarrow>
        fst (extract_metadata document) =
          (case load_failure document of Some e \<Rightarrow> Inl e | None \<Rightarrow> Inr None)
    | Some page \<Rightarrow>
        (\<exists>page_text g1 g2 s1 s2 s3.
           get_text page = Inr page_text \<and>
           re_search nm_match page_text = Some (g1, g2) \<and>
           re_search se_match page_text = Some (s1, s2, s3) \<and>
           fst (extract_metadata document) =
             Inr (Some \<lparr>firstname = g1, surname = g2, year = py_int s2,
                         semester = py_int s1, report = py_int s3\<rparr>))) \<and>
   (\<forall>pre page rest. document = pre @ Inr page # rest \<and> both_patterns_match page \<longrightarrow>
      extract_metadata document = extract_metadata (pre @ [Inr page]))"
  using extract_metadata_first [of document] extract_metadata_stops by blast

theorem extract_metadata_first_page_witness:
  "fst (extract_metadata [Inr page_name_only, Inr page_unreadable, Inr page_jane, Inr page_john]) =
     Inr (Some \<lparr>firstname = ''Jane'', surname = ''SMITH'', year = 2024, semester = 1,
                 report = 2\<rparr>) \<and>
   extract_metadata [Inr page_name_only, Inr page_unreadable, Inr page_jane, Inr page_john] =
     extract_metadata [Inr page_name_only, Inr page_unreadable, Inr page_jane] \<and>
   fst (extract_metadata [Inr page_name_only, Inr page_unreadable]) = Inr None \<and>
   fst (extract_metadata doc_damaged_page) = Inl Pdf_Error"
proof -
  let ?d = "[Inr page_name_only, Inr page_unreadable, Inr page_jane, Inr page_john]"
  have nj: "\<not> both_patterns_match page_name_only" "\<not> both_patterns_match page_unreadable"
    and j: "both_patterns_match page_jane"
    by (simp_all add: both_patterns_match_def page_name_only_def page_unreadable_def
        page_jane_def regex_defs)
  have gt: "get_text page_jane = Inr ''Jane SMITH\<newline>...\<newline>Semester 1, 2024 - Progress Report 2''"
    by (simp add: page_jane_def)
  have nm: "re_search nm_match ''Jane SMITH\<newline>...\<newline>Semester 1, 2024 - Progress Report 2'' =
      Some (''Jane'', ''SMITH'')"
    and se: "re_search se_match ''Jane SMITH\<newline>...\<newline>Semester 1, 2024 - Progress Report 2'' =
      Some (''1'', ''2024'', ''2'')"
    and ints: "py_int ''1'' = 1" "py_int ''2024'' = 2024" "py_int ''2'' = 2"
    by (simp_all add: regex_defs)
  have f4: "find both_patterns_match (loaded_pages ?d) = Some page_jane"
    by (simp add: loaded_pages_simps nj j)
  have f2: "find both_patterns_match (loaded_pages [Inr page_name_only, Inr page_unreadable]) = None"
    "load_failure [Inr page_name_only, Inr page_unreadable] = None"
    by (simp_all add: loaded_pages_simps load_failure_simps nj)
  have fd: "find both_patterns_match (loaded_pages doc_damaged_page) = None"
    "load_failure doc_damaged_page = Some Pdf_Error"
    by (simp_all add: doc_damaged_page_def loaded_pages_simps load_failure_simps nj)
  from extract_metadata_first_page [of ?d, THEN conjunct1]
  have "fst (extract_metadata ?d) =
     Inr (Some \<lparr>firstname = ''Jane'', surname = ''SMITH'', year = 2024, semester = 1,
                 report = 2\<rparr>)"
    unfolding f4 by (auto simp add: gt nm se ints simp del: extract_metadata.simps)
  moreover
  have "extract_metadata ?d =
     extract_metadata ([Inr page_name_only, Inr page_unreadable] @ [Inr page_jane])"
  proof -
    have split: "?d = [Inr page_name_only, Inr page_unreadable] @ Inr page_jane # [Inr page_john] \<and>
        both_patterns_match page_jane"
      using j by simp
    from extract_metadata_first_page [of ?d]
    have "\<forall>pre page rest. ?d = pre @ Inr page # rest \<and> both_patterns_match page \<longrightarrow>
        extract_metadata ?d = extract_metadata (pre @ [Inr page])"
      by (rule conjunct2)
    then show ?thesis using split by blast
  qed
  moreover
  from extract_metadata_first_page [of "[Inr page_name_only, Inr page_unreadable]", THEN conjunct1]
  have "fst (extract_metadata [Inr page_name_only, Inr page_unreadable]) = Inr None"
    unfolding f2 by simp
  moreover
  from extract_metadata_first_page [of doc_damaged_page, THEN conjunct1]
  have "fst (extract_metadata doc_damaged_page) = Inl Pdf_Error"
    unfolding fd by simp
  ultimately show ?thesis by simp
qed

text \<open>
  Claim C9. On the page that metadata extraction settles on, the name and the period
  are the groups of the leftmost occurrence of each pattern in the text of that page:
  an occurrence at position \<open>i\<close> with no occurrence at any position before it.
\<close>

theorem extract_metadata_leftmost:
  assumes "find both_patterns_match (loaded_pages document) = Some page"
  shows "\<exists>page_text i j g1 g2 s1 s2 s3.
     get_text page = Inr page_text \<and>
     leftmost nm_match page_text i \<and> match_at nm_match page_text i = Some (g1, g2) \<and>
     leftmost se_match page_text j \<and> match_at se_match page_text j = Some (s1, s2, s3) \<and>
     fst (extract_metadata document) =
       Inr (Some \<lparr>firstname = g1, surname = g2, year = py_int s2,
                   semester = py_int s1, report = py_int s3\<rparr>)"
proof -
  from assms extract_metadata_first [of document]
  obtain page_text g1 g2 s1 s2 s3 where a: "get_text page = Inr page_text"
    "re_search nm_match page_text = Some (g1, g2)"
    "re_search se_match page_text = Some (s1, s2, s3)"
    "fst (extract_metadata document) =
       Inr (Some \<lparr>firstname = g1, surname = g2, year = py_int s2,
                   semester = py_int s1, report = py_int s3\<rparr>)"
    by auto
  from a(2) obtain i where "leftmost nm_match page_text i"
    "match_at nm_match page_text i = Some (g1, g2)"
    unfolding re_search_leftmost by blast
  moreover from a(3) obtain j where "leftmost se_match page_text j"
    "match_at se_match page_text j = Some (s1, s2, s3)"
    unfolding re_search_leftmost by blast
  ultimately show ?thesis using a(1,4) by blast
qed

theorem extract_metadata_leftmost_witness:
  "(\<exists>page_text i j g1 g2 s1 s2 s3.
      get_text page_two_names = Inr page_text \<and>
      leftmost nm_match page_text i \<and> match_at nm_match page_text i = Some (g1, g2) \<and>
      leftmost se_match page_text j \<and> match_at se_match page_text j = Some (s1, s2, s3) \<and>
      fst (extract_metadata [Inr page_two_names]) =
        Inr (Some \<lparr>firstname = g1, surname = g2, year = py_int s2,
                    semester = py_int s1, report = py_int s3\<rparr>)) \<and>
   fst (extract_metadata [Inr page_two_names]) =
     Inr (Some \<lparr>firstname = ''Jane'', surname = ''SMITH'', year = 2024, semester = 1,
                 report = 2\<rparr>)"
proof -
  have h: "find both_patterns_match (loaded_pages [Inr page_two_names]) = Some page_two_names"
    by (simp add: loaded_pages_simps both_patterns_match_def page_two_names_def regex_defs)
  have v: "fst (extract_metadata [Inr page_two_names]) =
     Inr (Some \<lparr>firstname = ''Jane'', surname = ''SMITH'', year = 2024, semester = 1,
                 report = 2\<rparr>)"
    by (simp add: page_two_names_def regex_defs)
  from extract_metadata_leftmost [OF h] v show ?thesis by simp
qed

section \<open>Properties of table extraction\<close>

lemma find_append:
  "find P (xs @ ys) = (case find P xs of None \<Rightarrow> find P ys | Some x \<Rightarrow> Some x)"
  by (induction xs) simp_all

lemma scan_tables_Inl:
  "scan_tables tables = Inl e \<Longrightarrow>
     find has_marker (map projr (takeWhile (\<lambda>t. \<not> isl t) tables)) = None"
  by (induction tables) (auto simp: has_marker_def split: sum.splits if_splits)

lemma scan_tables_Inr:
  "scan_tables tables = Inr res \<Longrightarrow>
     res = map_option (drop 2) (find has_marker (map projr (takeWhile (\<lambda>t. \<not> isl t) tables)))"
  by (induction tables) (auto simp: has_marker_def split: sum.splits if_splits)

lemma reached_tables_simps:
  "reached_tables [] = []"
  "reached_tables (Inl e # document) = []"
  "reached_tables (Inr page # document) = reached_on_page page @ reached_tables document"
  by (simp_all add: reached_tables_def loaded_pages_simps)

lemma extract_tabledata_page:
  "fst (extract_tabledata (Inr page # document)) =
     (case find has_marker (reached_on_page page) of
        Some t \<Rightarrow> Inr (Some (drop 2 t))
      | None \<Rightarrow> fst (extract_tabledata document))"
proof (cases "find_tables page")
  case (Inl e)
  then show ?thesis
    by (auto simp add: reached_on_page_def split: prod.splits)
next
  case (Inr tables)
  show ?thesis
  proof (cases "scan_tables tables")
    case (Inl e)
    from scan_tables_Inl [OF this] Inr Inl show ?thesis
      by (auto simp add: reached_on_page_def split: prod.splits)
  next
    case r: (Inr res)
    from scan_tables_Inr [OF this] Inr r show ?thesis
      by (cases res) (auto simp add: reached_on_page_def split: option.splits)
  qed
qed

lemma extract_tabledata_reached:
  "fst (extract_tabledata document) =
     (case find has_marker (reached_tables document) of
        Some t \<Rightarrow> Inr (Some (drop 2 t))
      | None \<Rightarrow> (case load_failure document of Some e \<Rightarrow> Inl e | None \<Rightarrow> Inr None))"
proof (induction document)
  case Nil
  then show ?case by (simp add: reached_tables_simps load_failure_simps)
next
  case (Cons x document)
  show ?case
  proof (cases x)
    case (Inl e)
    then show ?thesis by (simp add: reached_tables_simps load_failure_simps)
  next
    case (Inr page)
    show ?thesis
      unfolding Inr extract_tabledata_page reached_tables_simps load_failure_simps find_append
        Cons.IH
      by (simp split: option.splits)
  qed
qed

lemma extract_tabledata_Some:
  "fst (extract_tabledata document) = Inr (Some rows) \<Longrightarrow>
     \<exists>t. find has_marker (reached_tables document) = Some t \<and> rows = drop 2 t"
  unfolding extract_tabledata_reached by (auto split: option.splits)

lemma drop2_rows:
  "3 \<le> length (t::'a list) \<Longrightarrow>
     length (drop 2 t) = length t - 2 \<and> (\<forall>k<length t - 2. drop 2 t ! k = t ! (k + 2))"
  by (simp add: add.commute)

lemma extract_data_Some:
  "fst (extract_data opened) = Inr (Some d) \<longleftrightarrow>
     (\<exists>document md rows. opened = Inr document \<and>
        fst (extract_metadata document) = Inr (Some md) \<and>
        fst (extract_tabledata document) = Inr (Some rows) \<and>
        d = metadata.extend md (extracted_data.fields rows))"
  by (cases opened)
    (auto simp: extract_data_def extract_data_handler_def
      split: prod.splits option.splits sum.splits)

lemma all_rows_extend: "all_rows (metadata.extend md (extracted_data.fields rows)) = rows"
  by (simp add: metadata.defs extracted_data.defs)

lemma reached_all_tables:
  assumes "\<forall>x\<in>set document. \<exists>page tables. x = Inr page \<and> find_tables page = Inr tables \<and>
      (\<forall>t\<in>set tables. \<not> isl t)"
  shows "reached_tables document = document_tables document"
proof -
  from assms have "\<forall>x\<in>set document. \<not> isl x" by auto
  then have tw: "takeWhile (\<lambda>x. \<not> isl x) document = document"
    and fl: "filter (\<lambda>x. \<not> isl x) document = document"
    by simp_all
  have pages: "loaded_pages document = map projr document"
    "document_pages document = map projr document"
    by (simp_all only: loaded_pages_def document_pages_def tw fl)
  have "reached_on_page page =
      (case find_tables page of Inl e \<Rightarrow> []
       | Inr tables \<Rightarrow> map projr (filter (\<lambda>t. \<not> isl t) tables))"
    if "page \<in> set (map projr document)" for page
  proof -
    from that obtain x where "x \<in> set document" "page = projr x" by auto
    with assms obtain tables where t: "find_tables page = Inr tables"
      "\<forall>t\<in>set tables. \<not> isl t" by fastforce
    from t(2) have tw: "takeWhile (\<lambda>t. \<not> isl t) tables = tables"
      and fl: "filter (\<lambda>t. \<not> isl t) tables = tables"
      by simp_all
    show ?thesis by (simp only: reached_on_page_def t(1) sum.case tw fl)
  qed
  then show ?thesis
    unfolding reached_tables_def document_tables_def pages
    by (intro arg_cong [where f = concat] map_cong refl)
qed

lemmas page_defs = page_name_only_def page_unreadable_def page_jane_def page_john_def
  page_two_names_def page_maths_table_def

lemmas row_defs = header_row_def spacer_row_def maths_row_def english_row_def short_row_def
  wide_row_def

lemmas doc_defs = doc_jane_def doc_marker_second_def doc_marker_inside_def doc_table_error_def
  doc_two_row_table_def doc_short_row_def doc_encrypted_def doc_damaged_page_def
  doc_table_then_damage_def table_marker_second_def table_marker_inside_def

lemmas example_defs = page_defs row_defs doc_defs md_jane_def result_of_def sql_fine_def
  sql_picky_def sql_down_def world0_def env_of_def

text \<open>
  The selection worded by claim C3 is not the one of the code. In the first document
  the marker is the second cell of the first row of the first table: the code takes
  that table, the claimed selection passes it by and takes the next one. In the second
  document the first cell contains the marker followed by more text: the claimed
  selection takes the table, the code finds no table at all. In the third document the
  table stands behind a page that fails to load, and in the encrypted one no table
  carries the marker: the code raises in both, where the claim has the table and
  \<open>None\<close>.
\<close>

theorem extract_tabledata_selects_counterexample:
  "fst (extract_tabledata doc_marker_second) = Inr (Some [english_row]) \<and>
   claimed_extract_table doc_marker_second = Some [maths_row] \<and>
   fst (extract_tabledata doc_marker_second) \<noteq> Inr (claimed_extract_table doc_marker_second) \<and>
   fst (extract_tabledata doc_marker_inside) = Inr None \<and>
   claimed_extract_table doc_marker_inside = Some [maths_row] \<and>
   fst (extract_tabledata doc_damaged_page) = Inl Pdf_Error \<and>
   claimed_extract_table doc_damaged_page = Some [maths_row] \<and>
   fst (extract_tabledata doc_encrypted) = Inl Pdf_Error \<and>
   claimed_extract_table doc_encrypted = None"
  by (simp add: doc_defs page_defs row_defs marker_def claimed_extract_table_def
      document_tables_def document_pages_def claimed_marker_def)

text \<open>
  Claim C3, amended. Table extraction selects the first table, among those its scan
  reaches, that is non-empty and has in its first row some cell equal to
  \<^verbatim>\<open>Areas Of Assessment\<close>. The scan goes through the pages in document order for as long
  as they load, and through the tables of a page in detection order, leaving the page
  at the first exception of \<^verbatim>\<open>find_tables()\<close> or \<^verbatim>\<open>extract()\<close>. It returns the selected
  table's rows from index 2 on, which for a table of \<open>N \<ge> 3\<close> rows are the \<open>N - 2\<close> rows
  \<open>2 .. N - 1\<close>. When no reached table has such a cell, the exception of a failed page
  load leaves the function, and if every page loads the result is \<open>None\<close>. In a document
  where nothing raises, the reached tables are all the tables of the document.
\<close>

theorem extract_tabledata_selects:
  "fst (extract_tabledata document) =
     (case find has_marker (reached_tables document) of
        Some t \<Rightarrow> Inr (Some (drop 2 t))
      | None \<Rightarrow> (case load_failure document of Some e \<Rightarrow> Inl e | None \<Rightarrow> Inr None)) \<and>
   (\<forall>t. find has_marker (reached_tables document) = Some t \<and> 3 \<le> length t \<longrightarrow>
      length (drop 2 t) = length t - 2 \<and> (\<forall>k<length t - 2. drop 2 t ! k = t ! (k + 2))) \<and>
   ((\<forall>x\<in>set document. \<exists>page tables. x = Inr page \<and> find_tables page = Inr tables \<and>
        (\<forall>t\<in>set tables. \<not> isl t)) \<longrightarrow>
      reached_tables document = document_tables document)"
  using extract_tabledata_reached [of document] reached_all_tables [of document]
    drop2_rows by blast

theorem extract_tabledata_selects_witness:
  "fst (extract_tabledata doc_table_error) = Inr (Some [maths_row]) \<and>
   find has_marker (reached_tables doc_table_error) = Some [header_row, spacer_row, maths_row] \<and>
   fst (extract_tabledata doc_marker_second) = Inr (Some [english_row]) \<and>
   reached_tables doc_marker_second = document_tables doc_marker_second \<and>
   fst (extract_tabledata doc_table_then_damage) = Inr (Some [maths_row]) \<and>
   fst (extract_tabledata doc_damaged_page) = Inl Pdf_Error \<and>
   fst (extract_tabledata [Inr page_jane]) = Inr None"
proof -
  have a: "find has_marker (reached_tables doc_table_error) = Some [header_row, spacer_row, maths_row]"
    by (simp add: reached_tables_simps reached_on_page_def has_marker_def doc_defs page_defs
        row_defs marker_def)
  have b: "find has_marker (reached_tables doc_marker_second) = Some table_marker_second"
    by (simp add: reached_tables_simps reached_on_page_def has_marker_def doc_defs page_defs
        row_defs marker_def)
  have c: "\<forall>x\<in>set doc_marker_second. \<exists>page tables. x = Inr page \<and>
      find_tables page = Inr tables \<and> (\<forall>t\<in>set tables. \<not> isl t)"
    by (simp add: doc_defs)
  have d: "find has_marker (reached_tables doc_table_then_damage) =
      Some [header_row, spacer_row, maths_row]"
    by (simp add: reached_tables_simps reached_on_page_def has_marker_def doc_defs page_defs
        row_defs marker_def)
  have e: "find has_marker (reached_tables doc_damaged_page) = None"
    "load_failure doc_damaged_page = Some Pdf_Error"
    by (simp_all add: reached_tables_simps load_failure_simps reached_on_page_def doc_defs
        page_defs)
  have f: "find has_marker (reached_tables [Inr page_jane]) = None"
    "load_failure [Inr page_jane] = None"
    by (simp_all add: reached_tables_simps load_failure_simps reached_on_page_def page_defs)
  from extract_tabledata_selects [of doc_table_error, THEN conjunct1]
  have "fst (extract_tabledata doc_table_error) = Inr (Some [maths_row])"
    unfolding a by simp
  moreover from extract_tabledata_selects [of doc_marker_second, THEN conjunct1]
  have "fst (extract_tabledata doc_marker_second) = Inr (Some [english_row])"
    unfolding b by (simp add: table_marker_second_def)
  moreover from extract_tabledata_selects [of doc_marker_second] c
  have "reached_tables doc_marker_second = document_tables doc_marker_second" by blast
  moreover from extract_tabledata_selects [of doc_table_then_damage, THEN conjunct1]
  have "fst (extract_tabledata doc_table_then_damage) = Inr (Some [maths_row])"
    unfolding d by simp
  moreover from extract_tabledata_selects [of doc_damaged_page, THEN conjunct1]
  have "fst (extract_tabledata doc_damaged_page) = Inl Pdf_Error"
    unfolding e by simp
  moreover from extract_tabledata_selects [of "[Inr page_jane]", THEN conjunct1]
  have "fst (extract_tabledata [Inr page_jane]) = Inr None"
    unfolding f by simp
  ultimately show ?thesis using a by simp
qed

section \<open>Properties of the assembled result\<close>

lemma process_file_writes:
  "pymupdf_open (E::env) f = opened \<Longrightarrow> extract_data opened = (Inr (Some d), lg) \<Longrightarrow>
     process_file E f w = write_sql (sqlite E) d ((called (Open f) w)\<lparr>log := log w @ lg\<rparr>)"
  by (simp add: process_file_def called_def)

text \<open>
  A result with no rows exists and is written: the marked table of this document has two
  rows, \<^verbatim>\<open>extract_data\<close> returns the metadata with an empty \<^verbatim>\<open>all_rows\<close>, and the driver
  passes it to \<^verbatim>\<open>write_sql\<close>, which connects and commits.
\<close>

theorem extract_data_nonempty_counterexample:
  "fst (extract_data (Inr doc_two_row_table)) = Inr (Some (result_of [])) \<and>
   all_rows (result_of []) = [] \<and>
   process_file (env_of (\<lambda>n. sql_fine)) ''b.pdf'' world0 =
     write_sql (\<lambda>n. sql_fine) (result_of []) (called (Open ''b.pdf'') world0) \<and>
   calls (snd (process_file (env_of (\<lambda>n. sql_fine)) ''b.pdf'' world0)) =
     [Open ''b.pdf'', Connect, Commit]"
  by (simp add: extract_data_def process_file_def write_sql_def called_def logged_def
      example_defs regex_defs marker_def metadata.defs extracted_data.defs)

text \<open>
  Claim C1, amended. An extraction result is produced exactly when the document opens,
  metadata extraction returns a record and table extraction returns a row sequence,
  empty or not. Its rows are the rows from index 2 on of the selected table, so they
  are empty exactly when that table has fewer than 3 rows. Every result, also one with
  no rows, is passed to the write step.
\<close>

theorem extract_data_result:
  "(fst (extract_data opened) = Inr (Some d) \<longleftrightarrow>
      (\<exists>document md rows. opened = Inr document \<and>
         fst (extract_metadata document) = Inr (Some md) \<and>
         fst (extract_tabledata document) = Inr (Some rows) \<and>
         d = metadata.extend md (extracted_data.fields rows))) \<and>
   (\<forall>document. opened = Inr document \<and> fst (extract_data opened) = Inr (Some d) \<longrightarrow>
      (\<exists>t. find has_marker (reached_tables document) = Some t \<and> all_rows d = drop 2 t \<and>
           (all_rows d = [] \<longleftrightarrow> length t < 3))) \<and>
   (\<forall>(E::env) f w. pymupdf_open E f = opened \<and> fst (extract_data opened) = Inr (Some d) \<longrightarrow>
      (\<exists>w'. process_file E f w = write_sql (sqlite E) d w'))"
proof (intro conjI allI impI)
  show "fst (extract_data opened) = Inr (Some d) \<longleftrightarrow>
      (\<exists>document md rows. opened = Inr document \<and>
         fst (extract_metadata document) = Inr (Some md) \<and>
         fst (extract_tabledata document) = Inr (Some rows) \<and>
         d = metadata.extend md (extracted_data.fields rows))"
    by (rule extract_data_Some)
next
  fix document
  assume a: "opened = Inr document \<and> fst (extract_data opened) = Inr (Some d)"
  then obtain md rows where r: "fst (extract_tabledata document) = Inr (Some rows)"
    "d = metadata.extend md (extracted_data.fields rows)"
    unfolding extract_data_Some by auto
  from extract_tabledata_Some [OF r(1)]
  obtain t where t: "find has_marker (reached_tables document) = Some t" "rows = drop 2 t"
    by blast
  from r(2) t(2) have "all_rows d = drop 2 t" by (simp add: all_rows_extend)
  moreover have "drop 2 t = [] \<longleftrightarrow> length t < 3" by auto
  ultimately show "\<exists>t. find has_marker (reached_tables document) = Some t \<and>
      all_rows d = drop 2 t \<and> (all_rows d = [] \<longleftrightarrow> length t < 3)"
    using t(1) by simp
next
  fix E :: env and f w
  assume a: "pymupdf_open E f = opened \<and> fst (extract_data opened) = Inr (Some d)"
  then obtain lg where "extract_data opened = (Inr (Some d), lg)"
    by (cases "extract_data opened") simp
  with a have "process_file E f w =
      write_sql (sqlite E) d ((called (Open f) w)\<lparr>log := log w @ lg\<rparr>)"
    by (simp add: process_file_writes)
  then show "\<exists>w'. process_file E f w = write_sql (sqlite E) d w'" ..
qed

theorem extract_data_result_witness:
  "fst (extract_data (Inr doc_jane)) = Inr (Some (result_of [maths_row])) \<and>
   (\<exists>t. find has_marker (reached_tables doc_two_row_table) = Some t \<and>
        all_rows (result_of []) = drop 2 t \<and> length t < 3) \<and>
   (\<exists>w'. process_file (env_of (\<lambda>n. sql_fine)) ''b.pdf'' world0 =
        write_sql (\<lambda>n. sql_fine) (result_of []) w')"
proof -
  have md: "fst (extract_metadata doc_jane) = Inr (Some md_jane)"
    by (simp add: example_defs regex_defs)
  have tb: "fst (extract_tabledata doc_jane) = Inr (Some [maths_row])"
    by (simp add: example_defs marker_def)
  have two: "fst (extract_data (Inr doc_two_row_table)) = Inr (Some (result_of []))"
    by (simp add: extract_data_def example_defs regex_defs marker_def)
  have op: "pymupdf_open (env_of (\<lambda>n. sql_fine)) ''b.pdf'' = Inr doc_two_row_table"
    "sqlite (env_of (\<lambda>n. sql_fine)) = (\<lambda>n. sql_fine)"
    by (simp_all add: env_of_def)
  have e: "all_rows (result_of []) = []"
    by (simp add: result_of_def all_rows_extend)
  from extract_data_result [of "Inr doc_jane" "result_of [maths_row]"] md tb
  have "fst (extract_data (Inr doc_jane)) = Inr (Some (result_of [maths_row]))"
    unfolding result_of_def by blast
  moreover
  from extract_data_result [of "Inr doc_two_row_table" "result_of []"] two e
  have "\<exists>t. find has_marker (reached_tables doc_two_row_table) = Some t \<and>
        all_rows (result_of []) = drop 2 t \<and> length t < 3"
    by auto
  moreover
  from extract_data_result [of "Inr doc_two_row_table" "result_of []"] two op
  have "\<exists>w'. process_file (env_of (\<lambda>n. sql_fine)) ''b.pdf'' world0 =
        write_sql (\<lambda>n. sql_fine) (result_of []) w'"
    by metis
  ultimately show ?thesis by blast
qed



section \<open>Properties of the write step\<close>

lemma insert_params_eq:
  "insert_params d row =
     (if long_enough row then Inr (report_row_of d row) else Inl Index_Error)"
  by (simp add: insert_params_def report_row_of_def long_enough_def)

lemma insert_rows_eq:
  "insert_rows env d rows w =
     (if list_all long_enough rows then None else Some Index_Error,
      w\<lparr>pending := pending w @ filter (insert_ok env) (map (report_row_of d) (takeWhile long_enough rows)),
        log := log w @ row_errors env (map (report_row_of d) (takeWhile long_enough rows)),
        calls := calls w @ map Execute (map (report_row_of d) (takeWhile long_enough rows))\<rparr>)"
proof (induction rows arbitrary: w)
  case Nil
  then show ?case by (simp add: row_errors_def)
next
  case (Cons row rows)
  show ?case
  proof (cases "long_enough row")
    case False
    then show ?thesis by (simp add: insert_params_eq row_errors_def)
  next
    case True
    show ?thesis
    proof (cases "insert_ok env (report_row_of d row)")
      case ok: True
      with True show ?thesis
        by (simp add: insert_params_eq Cons.IH row_errors_def called_def)
    next
      case no: False
      with True show ?thesis
        by (simp add: insert_params_eq Cons.IH row_errors_def called_def logged_def)
    qed
  qed
qed


lemma takeWhile_all: "list_all P xs \<Longrightarrow> takeWhile P xs = xs"
  by (induction xs) simp_all

lemma write_sql_no_connection:
  assumes "\<not> connect_ok (sql (conns w))"
  shows "write_sql sql d w =
     (None, w\<lparr>pending := [], conns := Suc (conns w),
              log := log w @ [Write_sql_config_error Sqlite3_Error],
              calls := calls w @ [Connect]\<rparr>)"
  using assms by (simp add: write_sql_def Let_def called_def logged_def)

lemma write_sql_committed:
  assumes "connect_ok (sql (conns w))" and "list_all long_enough (all_rows d)"
    and "commit_ok (sql (conns w))"
  shows "write_sql sql d w =
     (None, w\<lparr>stored := stored w @
                 filter (insert_ok (sql (conns w))) (map (report_row_of d) (all_rows d)),
              pending := [], conns := Suc (conns w),
              log := log w @ row_errors (sql (conns w)) (map (report_row_of d) (all_rows d)),
              calls := calls w @ Connect # map Execute (map (report_row_of d) (all_rows d)) @
                 [Commit]\<rparr>)"
  using assms
  by (simp add: write_sql_def Let_def insert_rows_eq takeWhile_all called_def logged_def)

lemma write_sql_commit_refused:
  assumes "connect_ok (sql (conns w))" and "list_all long_enough (all_rows d)"
    and "\<not> commit_ok (sql (conns w))"
  shows "write_sql sql d w =
     (None, w\<lparr>pending := [], conns := Suc (conns w),
              log := log w @ row_errors (sql (conns w)) (map (report_row_of d) (all_rows d)) @
                 [Write_sql_config_error Sqlite3_Error],
              calls := calls w @ Connect # map Execute (map (report_row_of d) (all_rows d)) @
                 [Commit, Rollback]\<rparr>)"
  using assms
  by (simp add: write_sql_def Let_def insert_rows_eq takeWhile_all called_def logged_def)

lemma write_sql_short_row:
  assumes "connect_ok (sql (conns w))" and "\<not> list_all long_enough (all_rows d)"
  shows "write_sql sql d w =
     (Some Index_Error,
      w\<lparr>pending := [], conns := Suc (conns w),
        log := log w @ row_errors (sql (conns w))
                 (map (report_row_of d) (takeWhile long_enough (all_rows d))),
        calls := calls w @ Connect #
                 map Execute (map (report_row_of d) (takeWhile long_enough (all_rows d))) @
                 [Rollback]\<rparr>)"
  using assms
  by (simp add: write_sql_def Let_def insert_rows_eq called_def logged_def)

lemmas write_sql_cases = write_sql_no_connection write_sql_committed write_sql_commit_refused
  write_sql_short_row

lemma opens_append: "opens (xs @ ys) = opens xs @ opens ys"
  by (induction xs rule: opens.induct) simp_all

lemma opens_Execute: "opens (map (Execute \<circ> f) rs) = []"
  by (induction rs) simp_all

lemma write_sql_opens: "opens (calls (snd (write_sql sql d w))) = opens (calls w)"
proof (cases "connect_ok (sql (conns w))")
  case False
  then show ?thesis by (simp add: write_sql_no_connection opens_append)
next
  case c: True
  show ?thesis
  proof (cases "list_all long_enough (all_rows d)")
    case False
    with c show ?thesis by (simp add: write_sql_short_row opens_append opens_Execute)
  next
    case True
    with c show ?thesis
      by (cases "commit_ok (sql (conns w))")
        (simp_all add: write_sql_committed write_sql_commit_refused opens_append opens_Execute)
  qed
qed

lemma process_file_opens:
  "opens (calls (snd (process_file E f w))) = opens (calls w) @ [f]"
  by (simp add: process_file_def Let_def write_sql_opens called_def opens_append
      split: prod.splits sum.splits option.splits)

lemma iterate_files_returns: "fst (iterate_files E files w) = None"
  by (induction files arbitrary: w) (simp_all split: prod.splits option.splits)

lemma iterate_files_opens:
  "opens (calls (snd (iterate_files E files w))) = opens (calls w) @ files"
proof (induction files arbitrary: w)
  case Nil
  then show ?case by simp
next
  case (Cons f files)
  obtain r w' where p: "process_file E f w = (r, w')" by (cases "process_file E f w")
  with process_file_opens [of E f w] have o: "opens (calls w') = opens (calls w) @ [f]"
    by simp
  show ?case
  proof (cases r)
    case None
    with p o Cons [of w'] show ?thesis by simp
  next
    case (Some e)
    with p o Cons [of "logged (Iterate_files_error e) w'"] show ?thesis
      by (simp add: logged_def)
  qed
qed



lemmas report_defs = maths_report_def english_report_def art_report_def

lemma reports:
  "report_row_of (result_of rows) maths_row = maths_report"
  "report_row_of (result_of rows) english_row = english_report"
  "report_row_of (result_of rows) wide_row = art_report"
  by (simp_all add: report_row_of_def result_of_def md_jane_def row_defs report_defs
      metadata.defs extracted_data.defs)

lemma result_of_rows: "all_rows (result_of rows) = rows"
  by (simp add: result_of_def metadata.defs extracted_data.defs)

lemma long_rows:
  "long_enough maths_row" "long_enough english_row" "long_enough wide_row"
  "\<not> long_enough short_row"
  by (simp_all add: long_enough_def row_defs)

text \<open>
  A row of two cells between two full rows, on an engine that accepts everything: the
  \<^verbatim>\<open>IndexError\<close> leaves \<^verbatim>\<open>write_sql\<close>, the row after the short one is never attempted,
  and the row inserted before it is rolled back.
\<close>

theorem write_sql_short_row_counterexample:
  "write_sql (\<lambda>n. sql_fine) (result_of [maths_row, short_row, english_row]) world0 =
     (Some Index_Error,
      \<lparr>stored = [], pending = [], conns = 1, log = [],
        calls = [Connect, Execute maths_report, Rollback]\<rparr>)"
  by (simp add: write_sql_def insert_params_def called_def logged_def result_of_def
      md_jane_def metadata.defs extracted_data.defs world0_def sql_fine_def report_defs
      row_defs)

text \<open>
  Claim C4, amended. On an open connection, an insert that the engine refuses is logged
  and only that row is skipped: when every row has at least 6 cells, an insert is
  attempted for every row, in order, whatever the engine answers, no exception leaves
  the call, and a successful commit stores exactly the accepted rows. A row of fewer
  than 6 cells is not isolated: \<^verbatim>\<open>IndexError\<close> is not an \<^verbatim>\<open>sqlite3.Error\<close>, it leaves
  \<^verbatim>\<open>write_sql\<close>, inserts are attempted only for the rows in front of the first short
  one, and the stored rows are as before the call.
\<close>

theorem write_sql_row_failures:
  assumes "connect_ok (sql (conns w))"
  shows "(list_all long_enough (all_rows d) \<longrightarrow>
      fst (write_sql sql d w) = None \<and>
      calls (snd (write_sql sql d w)) =
        calls w @ Connect # map Execute (map (report_row_of d) (all_rows d)) @
          (if commit_ok (sql (conns w)) then [Commit] else [Commit, Rollback]) \<and>
      log (snd (write_sql sql d w)) =
        log w @ row_errors (sql (conns w)) (map (report_row_of d) (all_rows d)) @
          (if commit_ok (sql (conns w)) then [] else [Write_sql_config_error Sqlite3_Error]) \<and>
      (commit_ok (sql (conns w)) \<longrightarrow>
         stored (snd (write_sql sql d w)) =
           stored w @ filter (insert_ok (sql (conns w))) (map (report_row_of d) (all_rows d)))) \<and>
     (\<not> list_all long_enough (all_rows d) \<longrightarrow>
      fst (write_sql sql d w) = Some Index_Error \<and>
      stored (snd (write_sql sql d w)) = stored w \<and>
      calls (snd (write_sql sql d w)) =
        calls w @ Connect #
          map Execute (map (report_row_of d) (takeWhile long_enough (all_rows d))) @ [Rollback])"
proof (intro conjI impI)
  assume l: "list_all long_enough (all_rows d)"
  show "fst (write_sql sql d w) = None"
    using assms l
    by (cases "commit_ok (sql (conns w))")
      (simp_all add: write_sql_committed write_sql_commit_refused)
  show "calls (snd (write_sql sql d w)) =
        calls w @ Connect # map Execute (map (report_row_of d) (all_rows d)) @
          (if commit_ok (sql (conns w)) then [Commit] else [Commit, Rollback])"
    using assms l
    by (cases "commit_ok (sql (conns w))")
      (simp_all add: write_sql_committed write_sql_commit_refused)
  show "log (snd (write_sql sql d w)) =
        log w @ row_errors (sql (conns w)) (map (report_row_of d) (all_rows d)) @
          (if commit_ok (sql (conns w)) then [] else [Write_sql_config_error Sqlite3_Error])"
    using assms l
    by (cases "commit_ok (sql (conns w))")
      (simp_all add: write_sql_committed write_sql_commit_refused)
  show "stored (snd (write_sql sql d w)) =
      stored w @ filter (insert_ok (sql (conns w))) (map (report_row_of d) (all_rows d))"
    if "commit_ok (sql (conns w))"
    using assms l that by (simp add: write_sql_committed)
next
  assume l: "\<not> list_all long_enough (all_rows d)"
  show "fst (write_sql sql d w) = Some Index_Error"
    using assms l by (simp add: write_sql_short_row)
  show "stored (snd (write_sql sql d w)) = stored w"
    using assms l by (simp add: write_sql_short_row)
  show "calls (snd (write_sql sql d w)) =
        calls w @ Connect #
          map Execute (map (report_row_of d) (takeWhile long_enough (all_rows d))) @ [Rollback]"
    using assms l by (simp add: write_sql_short_row)
qed

theorem write_sql_row_failures_witness:
  "fst (write_sql (\<lambda>n. sql_picky) (result_of [maths_row, english_row, wide_row]) world0) = None \<and>
   calls (snd (write_sql (\<lambda>n. sql_picky) (result_of [maths_row, english_row, wide_row]) world0)) =
     [Connect, Execute maths_report, Execute english_report, Execute art_report, Commit] \<and>
   log (snd (write_sql (\<lambda>n. sql_picky) (result_of [maths_row, english_row, wide_row]) world0)) =
     [Write_sql_row_error Sqlite3_Error] \<and>
   stored (snd (write_sql (\<lambda>n. sql_picky) (result_of [maths_row, english_row, wide_row]) world0)) =
     [maths_report, art_report] \<and>
   fst (write_sql (\<lambda>n. sql_fine) (result_of [maths_row, short_row, english_row]) world0) =
     Some Index_Error \<and>
   stored (snd (write_sql (\<lambda>n. sql_fine) (result_of [maths_row, short_row, english_row]) world0)) = [] \<and>
   calls (snd (write_sql (\<lambda>n. sql_fine) (result_of [maths_row, short_row, english_row]) world0)) =
     [Connect, Execute maths_report, Rollback]"
proof -
  have c: "connect_ok sql_picky" "commit_ok sql_picky" "connect_ok sql_fine"
    "insert_ok sql_picky maths_report" "\<not> insert_ok sql_picky english_report"
    "insert_ok sql_picky art_report"
    by (simp_all add: sql_picky_def sql_fine_def report_defs)
  have w: "stored world0 = []" "calls world0 = []" "log world0 = []"
    by (simp_all add: world0_def)
  from write_sql_row_failures [of "\<lambda>n. sql_picky" world0 "result_of [maths_row, english_row, wide_row]"]
    write_sql_row_failures [of "\<lambda>n. sql_fine" world0 "result_of [maths_row, short_row, english_row]"]
  show ?thesis
    by (simp add: c w result_of_rows long_rows reports row_errors_def)
qed

lemma write_sql_conns: "conns (snd (write_sql sql d w)) = Suc (conns w)"
proof (cases "connect_ok (sql (conns w))")
  case False
  then show ?thesis by (simp add: write_sql_no_connection)
next
  case c: True
  show ?thesis
  proof (cases "list_all long_enough (all_rows d)")
    case False
    with c show ?thesis by (simp add: write_sql_short_row)
  next
    case True
    with c show ?thesis
      by (cases "commit_ok (sql (conns w))")
        (simp_all add: write_sql_committed write_sql_commit_refused)
  qed
qed

lemma write_sql_stored:
  "stored (snd (write_sql sql d w)) =
     stored w @
       (if connect_ok (sql (conns w)) \<and> commit_ok (sql (conns w)) \<and>
           list_all long_enough (all_rows d)
        then filter (insert_ok (sql (conns w))) (map (report_row_of d) (all_rows d))
        else [])"
proof (cases "connect_ok (sql (conns w))")
  case False
  then show ?thesis by (simp add: write_sql_no_connection)
next
  case c: True
  show ?thesis
  proof (cases "list_all long_enough (all_rows d)")
    case False
    with c show ?thesis by (simp add: write_sql_short_row)
  next
    case True
    with c show ?thesis
      by (cases "commit_ok (sql (conns w))")
        (simp_all add: write_sql_committed write_sql_commit_refused)
  qed
qed

text \<open>
  Claim C7. Writing the same result twice without a new schema, with the engine
  answering alike during both connections, appends the rows of the first call a second
  time: with \<open>k\<close> rows inserted by one call the store grows by \<open>2 * k\<close> rows, nothing
  being deduplicated.
\<close>

theorem write_sql_twice:
  assumes "sql (Suc (conns w)) = sql (conns w)"
  shows "stored (snd (write_sql sql d w)) =
      stored w @
        (if connect_ok (sql (conns w)) \<and> commit_ok (sql (conns w)) \<and>
            list_all long_enough (all_rows d)
         then filter (insert_ok (sql (conns w))) (map (report_row_of d) (all_rows d))
         else []) \<and>
    stored (snd (write_sql sql d (snd (write_sql sql d w)))) =
      stored (snd (write_sql sql d w)) @
        (if connect_ok (sql (conns w)) \<and> commit_ok (sql (conns w)) \<and>
            list_all long_enough (all_rows d)
         then filter (insert_ok (sql (conns w))) (map (report_row_of d) (all_rows d))
         else []) \<and>
    length (stored (snd (write_sql sql d (snd (write_sql sql d w))))) =
      length (stored w) +
        2 * length (if connect_ok (sql (conns w)) \<and> commit_ok (sql (conns w)) \<and>
            list_all long_enough (all_rows d)
         then filter (insert_ok (sql (conns w))) (map (report_row_of d) (all_rows d))
         else [])"
proof -
  let ?k = "if connect_ok (sql (conns w)) \<and> commit_ok (sql (conns w)) \<and>
            list_all long_enough (all_rows d)
         then filter (insert_ok (sql (conns w))) (map (report_row_of d) (all_rows d))
         else []"
  have one: "stored (snd (write_sql sql d w)) = stored w @ ?k"
    by (rule write_sql_stored)
  have two: "stored (snd (write_sql sql d (snd (write_sql sql d w)))) =
      stored (snd (write_sql sql d w)) @ ?k"
    unfolding write_sql_stored [of sql d "snd (write_sql sql d w)"] write_sql_conns assms ..
  have "length (stored (snd (write_sql sql d (snd (write_sql sql d w))))) =
      length (stored w) + 2 * length ?k"
    unfolding two one by simp
  with one two show ?thesis by blast
qed

theorem write_sql_twice_witness:
  "stored (snd (write_sql (\<lambda>n. sql_picky) (result_of [maths_row, english_row, wide_row]) world0)) =
     [maths_report, art_report] \<and>
   stored (snd (write_sql (\<lambda>n. sql_picky) (result_of [maths_row, english_row, wide_row])
     (snd (write_sql (\<lambda>n. sql_picky) (result_of [maths_row, english_row, wide_row]) world0)))) =
     [maths_report, art_report, maths_report, art_report]"
proof -
  have c: "connect_ok sql_picky" "commit_ok sql_picky"
    "insert_ok sql_picky maths_report" "\<not> insert_ok sql_picky english_report"
    "insert_ok sql_picky art_report"
    by (simp_all add: sql_picky_def report_defs)
  have w: "stored world0 = []" by (simp add: world0_def)
  from write_sql_twice [of "\<lambda>n. sql_picky" world0 "result_of [maths_row, english_row, wide_row]"]
  show ?thesis
    by (simp add: c w result_of_rows long_rows reports)
qed

lemma long_take: "long_enough (take 6 row) = long_enough row"
  by (auto simp: long_enough_def)

lemma report_row_of_take: "long_enough row \<Longrightarrow> report_row_of d (take 6 row) = report_row_of d row"
  by (simp add: report_row_of_def long_enough_def)

lemma insert_params_take: "insert_params d (take 6 row) = insert_params d row"
  by (simp add: insert_params_eq long_take report_row_of_take)

lemma attempted_take:
  "map (report_row_of d) (takeWhile long_enough (map (take 6) rows)) =
     map (report_row_of d) (takeWhile long_enough rows)"
  by (induction rows) (simp_all add: long_take report_row_of_take)

lemma list_all_long_take: "list_all long_enough (map (take 6) rows) = list_all long_enough rows"
  by (induction rows) (simp_all add: long_take)

lemma insert_rows_take: "insert_rows env d (map (take 6) rows) w = insert_rows env d rows w"
  unfolding insert_rows_eq attempted_take list_all_long_take ..

lemma report_row_of_all_rows_update: "report_row_of (d\<lparr>all_rows := rs\<rparr>) = report_row_of d"
  by (rule ext) (simp add: report_row_of_def)

lemma insert_rows_all_rows_update:
  "insert_rows env (d\<lparr>all_rows := rs\<rparr>) rows w = insert_rows env d rows w"
  unfolding insert_rows_eq report_row_of_all_rows_update ..

lemma all_rows_update: "all_rows (d\<lparr>all_rows := rs\<rparr>) = rs"
  by simp

lemma write_sql_take:
  "write_sql sql (d\<lparr>all_rows := map (take 6) (all_rows d)\<rparr>) w = write_sql sql d w"
  unfolding write_sql_def all_rows_update insert_rows_all_rows_update insert_rows_take ..

text \<open>
  Claim C8. For rows of more than 6 cells the stored row has cell 0 as the subject and
  cells 1 to 5 as the five assessment fields, and the cells from position 6 on have no
  effect: the call does what it does on the rows cut to their first 6 cells.
\<close>

theorem write_sql_six_cells:
  assumes "\<forall>row\<in>set (all_rows d). 6 < length row"
    and "connect_ok (sql (conns w))" and "commit_ok (sql (conns w))"
  shows "stored (snd (write_sql sql d w)) =
      stored w @ filter (insert_ok (sql (conns w)))
        (map (\<lambda>row. \<lparr>col_firstname = firstname d, col_surname = surname d, col_year = year d,
                col_semester = semester d, col_report = report d,
                col_subject = row ! 0,
                col_evidence_of_learning = row ! 1,
                col_personal_learning = row ! 2,
                col_working_with_others = row ! 3,
                col_orderly_behaviour = row ! 4,
                col_learning_outside_the_classroom = row ! 5\<rparr>) (all_rows d)) \<and>
    write_sql sql d w = write_sql sql (d\<lparr>all_rows := map (take 6) (all_rows d)\<rparr>) w"
proof -
  from assms(1) have "list_all long_enough (all_rows d)"
    by (auto simp: list_all_iff long_enough_def)
  with assms(2,3) have "stored (snd (write_sql sql d w)) =
      stored w @ filter (insert_ok (sql (conns w))) (map (report_row_of d) (all_rows d))"
    by (simp add: write_sql_stored)
  moreover have "report_row_of d = (\<lambda>row. \<lparr>col_firstname = firstname d, col_surname = surname d,
                col_year = year d, col_semester = semester d, col_report = report d,
                col_subject = row ! 0,
                col_evidence_of_learning = row ! 1,
                col_personal_learning = row ! 2,
                col_working_with_others = row ! 3,
                col_orderly_behaviour = row ! 4,
                col_learning_outside_the_classroom = row ! 5\<rparr>)"
    by (rule ext) (simp add: report_row_of_def)
  ultimately show ?thesis by (simp add: write_sql_take)
qed

theorem write_sql_six_cells_witness:
  "stored (snd (write_sql (\<lambda>n. sql_fine) (result_of [wide_row]) world0)) = [art_report] \<and>
   write_sql (\<lambda>n. sql_fine) (result_of [wide_row]) world0 =
     write_sql (\<lambda>n. sql_fine) (result_of [take 6 wide_row]) world0"
proof -
  have h: "\<forall>row\<in>set (all_rows (result_of [wide_row])). 6 < length row"
    by (simp add: result_of_rows wide_row_def)
  have c: "connect_ok ((\<lambda>n. sql_fine) (conns world0))" "commit_ok ((\<lambda>n. sql_fine) (conns world0))"
    by (simp_all add: sql_fine_def)
  have u: "(result_of [wide_row])\<lparr>all_rows := map (take 6) (all_rows (result_of [wide_row]))\<rparr> =
      result_of [take 6 wide_row]"
    by (simp add: result_of_def metadata.defs extracted_data.defs)
  have f: "firstname (result_of [wide_row]) = ''Jane''" "surname (result_of [wide_row]) = ''SMITH''"
    "year (result_of [wide_row]) = 2024" "semester (result_of [wide_row]) = 1"
    "report (result_of [wide_row]) = 2"
    by (simp_all add: result_of_def md_jane_def metadata.defs extracted_data.defs)
  have n: "wide_row ! 0 = Some ''Art''" "wide_row ! Suc 0 = Some ''A''" "wide_row ! 2 = Some ''B''"
    "wide_row ! 3 = Some ''C''" "wide_row ! 4 = Some ''D''" "wide_row ! 5 = Some ''E''"
    by (simp_all add: wide_row_def)
  have e: "stored world0 = []"
    by (simp add: world0_def)
  have i: "insert_ok sql_fine r" for r
    by (simp add: sql_fine_def)
  note both = write_sql_six_cells [where d = "result_of [wide_row]" and sql = "\<lambda>n. sql_fine"
      and w = world0, OF h c]
  from both [THEN conjunct1]
  have "stored (snd (write_sql (\<lambda>n. sql_fine) (result_of [wide_row]) world0)) = [art_report]"
    by (simp add: f i n e result_of_rows art_report_def)
  moreover from both [THEN conjunct2]
  have "write_sql (\<lambda>n. sql_fine) (result_of [wide_row]) world0 =
     write_sql (\<lambda>n. sql_fine) (result_of [take 6 wide_row]) world0"
    unfolding u .
  ultimately show ?thesis ..
qed

text \<open>
  Claim C10. Writing a result with no rows raises nothing, leaves the stored rows as
  they are, and makes no insert: the only calls are the connection and its commit (with
  the rollback of a refused commit), or the failed connection alone.
\<close>

theorem write_sql_no_rows:
  assumes "all_rows d = []"
  shows "fst (write_sql sql d w) = None \<and>
    stored (snd (write_sql sql d w)) = stored w \<and>
    calls (snd (write_sql sql d w)) =
      calls w @ (if \<not> connect_ok (sql (conns w)) then [Connect]
                 else if commit_ok (sql (conns w)) then [Connect, Commit]
                 else [Connect, Commit, Rollback])"
proof (cases "connect_ok (sql (conns w))")
  case False
  then show ?thesis by (simp add: write_sql_no_connection)
next
  case True
  with assms show ?thesis
    by (cases "commit_ok (sql (conns w))")
      (simp_all add: write_sql_committed write_sql_commit_refused)
qed

theorem write_sql_no_rows_witness:
  "fst (write_sql (\<lambda>n. sql_fine) (result_of []) world0) = None \<and>
   stored (snd (write_sql (\<lambda>n. sql_fine) (result_of []) world0)) = [] \<and>
   calls (snd (write_sql (\<lambda>n. sql_fine) (result_of []) world0)) = [Connect, Commit]"
  using write_sql_no_rows [of "result_of []" "\<lambda>n. sql_fine" world0]
  by (simp add: result_of_rows world0_def sql_fine_def)

section \<open>Properties of the batch driver\<close>

lemma write_sql_log: "\<exists>lg. log (snd (write_sql sql d w)) = log w @ lg"
proof (cases "connect_ok (sql (conns w))")
  case False
  then show ?thesis by (simp add: write_sql_no_connection)
next
  case c: True
  show ?thesis
  proof (cases "list_all long_enough (all_rows d)")
    case False
    with c show ?thesis by (simp add: write_sql_short_row)
  next
    case True
    with c show ?thesis
      by (cases "commit_ok (sql (conns w))")
        (simp_all add: write_sql_committed write_sql_commit_refused)
  qed
qed

lemma process_file_log: "\<exists>lg. log (snd (process_file E f w)) = log w @ lg"
proof (cases "extract_data (pymupdf_open E f)")
  case (Pair r lg)
  show ?thesis
  proof (cases r)
    case (Inl e)
    with Pair show ?thesis by (simp add: process_file_def called_def)
  next
    case (Inr res)
    show ?thesis
    proof (cases res)
      case None
      with Pair Inr show ?thesis by (simp add: process_file_def called_def)
    next
      case (Some d)
      from write_sql_log [of "sqlite E" d "(called (Open f) w)\<lparr>log := log w @ lg\<rparr>"]
      obtain lg' where "log (snd (write_sql (sqlite E) d ((called (Open f) w)\<lparr>log := log w @ lg\<rparr>))) =
          log w @ lg @ lg'"
        by auto
      with Pair Inr Some show ?thesis by (simp add: process_file_def called_def)
    qed
  qed
qed

lemma iterate_files_log: "\<exists>lg. log (snd (iterate_files E files w)) = log w @ lg"
proof (induction files arbitrary: w)
  case Nil
  then show ?case by simp
next
  case (Cons f files)
  obtain r w' where p: "process_file E f w = (r, w')" by (cases "process_file E f w")
  with process_file_log [of E f w] obtain lg where l: "log w' = log w @ lg" by auto
  show ?case
  proof (cases r)
    case None
    from Cons [of w'] obtain lg' where "log (snd (iterate_files E files w')) = log w' @ lg'" ..
    with p l None show ?thesis by simp
  next
    case (Some e)
    from Cons [of "logged (Iterate_files_error e) w'"]
    obtain lg' where "log (snd (iterate_files E files (logged (Iterate_files_error e) w'))) =
        log (logged (Iterate_files_error e) w') @ lg'" ..
    with p l Some show ?thesis by (simp add: logged_def)
  qed
qed

lemma setup_sql_failed:
  assumes "\<not> connect_ok (sql (conns w)) \<or> script (sql (conns w)) \<noteq> Script_done"
  shows "log (setup_sql sql w) = log w @ [Setup_sql_error Sqlite3_Error]"
    and "opens (calls (setup_sql sql w)) = opens (calls w)"
  using assms
  by (auto simp: setup_sql_def Let_def called_def logged_def opens_append
      split: script_result.splits)


lemmas run_defs = main_def setup_sql_def process_file_def extract_data_def
  extract_data_handler_def write_sql_def
  insert_params_def called_def logged_def marker_def metadata.defs extracted_data.defs

lemma sorted_glob: "rev (sort [''a.pdf'', ''b.pdf'', ''c.pdf'']) = [''c.pdf'', ''b.pdf'', ''a.pdf'']"
  by simp


text \<open>
  The first connection fails, so the schema script never runs and the row of an earlier
  run stays; the batch still opens the three files and stores the row of \<^verbatim>\<open>a.pdf\<close>.
\<close>

theorem main_after_failed_setup_counterexample:
  "main (env_of sql_down_once) (world0\<lparr>stored := [english_report]\<rparr>) =
     (None,
      \<lparr>stored = [english_report, maths_report], pending = [], conns = 3,
       log = [Setup_sql_error Sqlite3_Error, Iterate_files_error Type_Error],
       calls = [Connect, Open ''c.pdf'', Open ''b.pdf'', Connect, Commit,
                Open ''a.pdf'', Connect, Execute maths_report, Commit]\<rparr>)"
  by (simp add: run_defs example_defs regex_defs report_defs sql_down_once_def)

text \<open>
  Claim C5, amended. When schema initialisation fails, \<^verbatim>\<open>setup_sql\<close> logs the failure
  and \<^verbatim>\<open>main\<close> goes on all the same: it runs the driver over the whole sorted file
  list, every file is opened, and the run ends without an exception.
\<close>

theorem main_after_failed_setup:
  assumes "\<not> connect_ok (sqlite E (conns w)) \<or> script (sqlite E (conns w)) \<noteq> Script_done"
  shows "log (setup_sql (sqlite E) w) = log w @ [Setup_sql_error Sqlite3_Error] \<and>
    main E w = iterate_files E (rev (sort (pdf_glob E))) (setup_sql (sqlite E) w) \<and>
    fst (main E w) = None \<and>
    opens (calls (snd (main E w))) = opens (calls w) @ rev (sort (pdf_glob E)) \<and>
    Setup_sql_error Sqlite3_Error \<in> set (log (snd (main E w)))"
proof -
  note failed = setup_sql_failed [of "sqlite E" w, OF assms]
  have m: "main E w = iterate_files E (rev (sort (pdf_glob E))) (setup_sql (sqlite E) w)"
    by (simp add: main_def)
  from iterate_files_log [of E "rev (sort (pdf_glob E))" "setup_sql (sqlite E) w"]
  obtain lg where "log (snd (main E w)) = log (setup_sql (sqlite E) w) @ lg"
    unfolding m by blast
  with failed(1)
  have "Setup_sql_error Sqlite3_Error \<in> set (log (snd (main E w)))" by simp
  moreover have "fst (main E w) = None"
    unfolding m by (rule iterate_files_returns)
  moreover have "opens (calls (snd (main E w))) = opens (calls w) @ rev (sort (pdf_glob E))"
    unfolding m iterate_files_opens failed(2) ..
  ultimately show ?thesis
    using m failed(1) by blast
qed


theorem main_after_failed_setup_witness:
  "log (setup_sql sql_down_once (world0\<lparr>stored := [english_report]\<rparr>)) =
     [Setup_sql_error Sqlite3_Error] \<and>
   fst (main (env_of sql_down_once) (world0\<lparr>stored := [english_report]\<rparr>)) = None \<and>
   opens (calls (snd (main (env_of sql_down_once) (world0\<lparr>stored := [english_report]\<rparr>)))) =
     [''c.pdf'', ''b.pdf'', ''a.pdf''] \<and>
   Setup_sql_error Sqlite3_Error \<in>
     set (log (snd (main (env_of sql_down_once) (world0\<lparr>stored := [english_report]\<rparr>))))"
proof -
  have h: "\<not> connect_ok (sqlite (env_of sql_down_once) (conns (world0\<lparr>stored := [english_report]\<rparr>))) \<or>
      script (sqlite (env_of sql_down_once) (conns (world0\<lparr>stored := [english_report]\<rparr>))) \<noteq>
        Script_done"
    by (simp add: env_of_def sql_down_once_def sql_down_def world0_def)
  have e: "sqlite (env_of sql_down_once) = sql_down_once"
    "pdf_glob (env_of sql_down_once) = [''a.pdf'', ''b.pdf'', ''c.pdf'']"
    "log (world0\<lparr>stored := [english_report]\<rparr>) = []"
    "opens (calls (world0\<lparr>stored := [english_report]\<rparr>)) = []"
    by (simp_all add: env_of_def world0_def)
  note t = main_after_failed_setup [OF h, unfolded e sorted_glob append_Nil]
  from t show ?thesis by blast
qed

end

